theory Spec2Isabelle
  imports Main "HOL-Library.Word" "HOL-Library.Sublist" "HOL-Library.Signed_Division"
begin

unbundle bit_operations_syntax

section \<open>Data model of blockheaderprocessor.cpp\<close>

text \<open>
  The unit under study is \<^verbatim>\<open>src/blockheaderprocessor.cpp\<close>: the functions
  \<^verbatim>\<open>headerConnects\<close>, \<^verbatim>\<open>DefaultHeaderProcessor::operator()\<close>, \<^verbatim>\<open>acceptHeaders\<close>,
  \<^verbatim>\<open>findMissingBlocks\<close>, \<^verbatim>\<open>hasEqualOrMoreWork\<close>, \<^verbatim>\<open>suggestDownload\<close> and
  \<^verbatim>\<open>requestConnectHeaders\<close>. Everything they call that lives in another file of the
  node (chain.h, main.cpp, blockannounce.cpp, ...) is either a parameter of the model
  (record \<open>Env\<close>) or a small definition whose comment says what it stands for.
\<close>

type_synonym uint256 = "256 word"

type_synonym NodeId = int

text \<open>
  A \<^verbatim>\<open>CBlockIndex*\<close> is an address of the block index, \<^verbatim>\<open>nullptr\<close> is \<open>None\<close> of
  \<open>addr option\<close>. Objects of the block index are never freed, so every address holds an
  object (\<open>blockIndex\<close> below is a total function).
\<close>

type_synonym addr = nat

text \<open>
  Modelled from the spec: \<^verbatim>\<open>CBlockHeader\<close> (primitives/block.h) is not among the sources.
  The code reads \<^verbatim>\<open>hashPrevBlock\<close> and calls \<^verbatim>\<open>GetHash()\<close>; a header of the spec has a
  previous-hash and a hash. The hash function over the serialised header is not
  modelled: the record carries its value as the field \<open>GetHash\<close>.
\<close>

record CBlockHeader =
  hashPrevBlock :: uint256
  GetHash :: uint256

text \<open>
  Modelled from the spec: \<^verbatim>\<open>CBlockIndex\<close> (chain.h) is not among the sources. The record
  has the members this file reads, which are the attributes of the spec's HeaderRecord:
  hash, parent reference, height, status flags and cumulative work. \<^verbatim>\<open>GetBlockHash()\<close>
  returns the hash.
\<close>

record CBlockIndex =
  phashBlock :: uint256
  pprev :: "addr option"
  nHeight :: int
  nStatus :: "32 word"
  nChainWork :: uint256

definition GetBlockHash :: "CBlockIndex \<Rightarrow> uint256" where
  "GetBlockHash b = phashBlock b"

text \<open>
  The process-wide chain state the file reaches into: the objects of the block index,
  \<^verbatim>\<open>mapBlockIndex\<close> (hash to object), \<^verbatim>\<open>chainActive\<close> (the active chain, genesis first,
  tip last) and \<^verbatim>\<open>pindexBestHeader\<close> (the best header this node has seen, one global
  pointer for all peers).
\<close>

record ChainState =
  blockIndex :: "addr \<Rightarrow> CBlockIndex"
  mapBlockIndex :: "uint256 \<rightharpoonup> addr"
  chainActive :: "addr list"
  pindexBestHeader :: "addr option"

text \<open>
  Modelled from the spec: \<^verbatim>\<open>CChain\<close> (chain.h) is not among the sources. The spec's
  \<^verbatim>\<open>ChainIndex.contains(node)\<close> says whether the node belongs to the active best chain,
  and \<^verbatim>\<open>activeTipWork\<close> reads the work of its tip; \<^verbatim>\<open>Tip()\<close> of an empty chain is the
  null pointer.
\<close>

definition Contains :: "ChainState \<Rightarrow> addr \<Rightarrow> bool" where
  "Contains cs p = (p \<in> set (chainActive cs))"

definition Tip :: "ChainState \<Rightarrow> addr option" where
  "Tip cs = (if chainActive cs = [] then None else Some (last (chainActive cs)))"

text \<open>
  Modelled from the spec: the per-peer state (nodestate.h) is not among the sources. The
  spec's PeerHeaderState has the counter \<open>unconnectingHeaders\<close> and the peer's known-block
  pointer \<open>bestKnownHeader\<close> (a hash or none), the field that
  \<^verbatim>\<open>UpdateBlockAvailability\<close> writes. The counter is a C++ \<^verbatim>\<open>int\<close> in the code; the model
  uses \<open>int\<close>, and the theorems on the counter keep it below \<open>INT_MAX\<close>, beyond which
  the C++ increment has no defined result.
\<close>

record CNodeState =
  unconnectingHeaders :: int
  bestKnownHeader :: "uint256 option"

definition INT_MAX :: int where
  "INT_MAX = 2147483647"

text \<open>
  Modelled from the spec: \<^verbatim>\<open>CNode\<close> (net.h) is not among the sources. The record has the
  members this file reads: the peer id and the starting height (used in a log line only).
\<close>

record CNode =
  nodeid :: NodeId
  nStartingHeight :: int

datatype CInv = CInv int uint256

type_synonym CBlockLocator = "uint256 list"

text \<open>The two messages the file pushes, with their payload.\<close>

datatype NetMsg =
    GETHEADERS CBlockLocator uint256
  | GETDATA "CInv list"

text \<open>
  The calls that leave the file, in the order they are made: misbehaviour reports,
  pushed messages, admission decisions with their answer, in-flight marks and the
  tree-invariant check. The two entries \<open>EvFindMissingBlocks\<close> and \<open>EvSuggestDownload\<close>
  record that \<^verbatim>\<open>operator()\<close> called the two member functions (the first has no effect of
  its own to observe).
\<close>

datatype event =
    EvMisbehaving NodeId int string
  | EvPushMessage NodeId NetMsg
  | EvOnBlockAnnounced uint256 bool
  | EvMarkAsInFlight NodeId uint256
  | EvCheckBlockIndex
  | EvFindMissingBlocks addr
  | EvSuggestDownload "addr list" addr

text \<open>
  The whole state: chain state, per-peer state, the state \<open>'n\<close> of the in-flight index
  and the thin-block manager (owned by code outside this file), and the trace.
\<close>

record 'n World =
  chainstate :: ChainState
  nodeStates :: "NodeId \<Rightarrow> CNodeState"
  netstate :: 'n
  trace :: "event list"

text \<open>
  Modelled from the spec: \<^verbatim>\<open>CValidationState\<close> (consensus/validation.h) is not among the
  sources. The spec's chain index answers a header with success or with a failure that
  carries penalty points; in the code the failure is the false result with a state for
  which \<^verbatim>\<open>IsInvalid(nDoS)\<close> is true, and \<^verbatim>\<open>nDoS\<close> is the penalty it hands out. A false
  result with a state that is not invalid (an internal error) is the third mode.
\<close>

datatype mode_state = MODE_VALID | MODE_INVALID | MODE_ERROR

record CValidationState =
  mode :: mode_state
  nDoS :: int

definition IsInvalid :: "CValidationState \<Rightarrow> bool" where
  "IsInvalid st = (mode st = MODE_INVALID)"

text \<open>
  What the file uses and does not define, as parameters:
  \<^item> \<open>MAX_BLOCKS_IN_TRANSIT_PER_PEER\<close>, the transit cap (main.h);
  \<^item> \<open>BLOCK_HAVE_DATA\<close>, the status bit, and \<open>IsValid_TREE\<close>, which is
    \<^verbatim>\<open>CBlockIndex::IsValid(BLOCK_VALID_TREE)\<close> (chain.h);
  \<^item> \<open>AcceptBlockHeader header pindexLast cs\<close> (main.cpp): returns the boolean result, the
    validation state, the new value of \<^verbatim>\<open>pindexLast\<close> (passed by address) and the new
    chain state;
  \<^item> \<open>GetLocator\<close>, \<^verbatim>\<open>chainActive.GetLocator(pindex)\<close> (chain.cpp);
  \<^item> \<open>isInFlight\<close>, \<^verbatim>\<open>blocksInFlight.isInFlight(hash)\<close>, and \<open>markAsInFlight\<close>, the
    injected \<^verbatim>\<open>BlockInFlightMarker\<close>;
  \<^item> \<open>onBlockAnnounced peer hash toGet cs n\<close>, \<^verbatim>\<open>BlockAnnounceReceiver::onBlockAnnounced\<close>
    (blockannounce.cpp): returns the decision, the new \<^verbatim>\<open>toGet\<close> (passed by reference)
    and the new state of the in-flight index and thin-block manager.
  The parameters act on the part of the state they are given: the header acceptance on
  the chain state, the admission and the in-flight marker on the state \<open>'n\<close>.
\<close>

record 'n Env =
  MAX_BLOCKS_IN_TRANSIT_PER_PEER :: nat
  BLOCK_HAVE_DATA :: "32 word"
  IsValid_TREE :: "CBlockIndex \<Rightarrow> bool"
  AcceptBlockHeader ::
    "CBlockHeader \<Rightarrow> addr option \<Rightarrow> ChainState \<Rightarrow> bool \<times> CValidationState \<times> addr option \<times> ChainState"
  GetLocator :: "ChainState \<Rightarrow> addr option \<Rightarrow> CBlockLocator"
  isInFlight :: "'n \<Rightarrow> uint256 \<Rightarrow> bool"
  markAsInFlight :: "NodeId \<Rightarrow> uint256 \<Rightarrow> 'n \<Rightarrow> 'n"
  onBlockAnnounced ::
    "NodeId \<Rightarrow> uint256 \<Rightarrow> CInv list \<Rightarrow> ChainState \<Rightarrow> 'n \<Rightarrow> bool \<times> CInv list \<times> 'n"

text \<open>
  \<^verbatim>\<open>BlockHeaderError\<close> is the one exception type the file throws, with its message. A
  null-pointer dereference (\<^verbatim>\<open>chainActive.Tip()->nChainWork\<close> on an empty chain) ends
  the call as well.
\<close>

datatype error = BlockHeaderError string | NullDereference

section \<open>Collaborators\<close>

text \<open>
  Modelled from the spec: \<^verbatim>\<open>Misbehaving(nodeid, howmuch, reason)\<close> (main.cpp) is not among
  the sources. The spec's \<^verbatim>\<open>reportMisbehavior\<close> emits a report; the model records it.
\<close>

definition Misbehaving :: "NodeId \<Rightarrow> int \<Rightarrow> string \<Rightarrow> 'n World \<Rightarrow> 'n World" where
  "Misbehaving n howmuch reason w = w\<lparr>trace := trace w @ [EvMisbehaving n howmuch reason]\<rparr>"

text \<open>
  Modelled from the spec: \<^verbatim>\<open>connman.PushMessage(node, msg)\<close> (net.h) is not among the
  sources. Outbound sends are fire-and-forget; the model records the message.
\<close>

definition PushMessage :: "NodeId \<Rightarrow> NetMsg \<Rightarrow> 'n World \<Rightarrow> 'n World" where
  "PushMessage n msg w = w\<lparr>trace := trace w @ [EvPushMessage n msg]\<rparr>"

text \<open>
  Modelled from the spec: \<^verbatim>\<open>UpdateBlockAvailability\<close> (main.cpp) is not among the
  sources. The spec says it updates the peer's known-block pointer to the given hash.
\<close>

definition UpdateBlockAvailability :: "NodeId \<Rightarrow> uint256 \<Rightarrow> 'n World \<Rightarrow> 'n World" where
  "UpdateBlockAvailability n h w =
     w\<lparr>nodeStates := (nodeStates w)(n := (nodeStates w n)\<lparr>bestKnownHeader := Some h\<rparr>)\<rparr>"

text \<open>
  Modelled from the spec: the injected \<^verbatim>\<open>checkBlockIndex\<close> callback is the external
  block-tree invariant checker, whose failures are not this file's concern. The model
  records the call.
\<close>

definition checkBlockIndex :: "'n World \<Rightarrow> 'n World" where
  "checkBlockIndex w = w\<lparr>trace := trace w @ [EvCheckBlockIndex]\<rparr>"

section \<open>The functions of the file\<close>

definition MAX_UNCONNECTING_HEADERS :: int where
  "MAX_UNCONNECTING_HEADERS = 10"

definition headerConnects :: "ChainState \<Rightarrow> CBlockHeader \<Rightarrow> bool" where
  "headerConnects cs h = (mapBlockIndex cs (hashPrevBlock h) \<noteq> None)"

subsection \<open>acceptHeaders\<close>

text \<open>
  The range-for loop of \<^verbatim>\<open>acceptHeaders\<close>, with \<^verbatim>\<open>pindexLast\<close> as loop state. A throw
  ends the loop with \<open>Inl\<close>; the world returned with it is the world at the throw.
\<close>

fun acceptHeaders_loop ::
  "'n Env \<Rightarrow> CNode \<Rightarrow> CBlockHeader list \<Rightarrow> addr option \<Rightarrow> 'n World \<Rightarrow> (error + addr option) \<times> 'n World"
where
  "acceptHeaders_loop env pfrom [] pindexLast w = (Inr pindexLast, w)"
| "acceptHeaders_loop env pfrom (header # rest) pindexLast w =
     (if (case pindexLast of None \<Rightarrow> False
          | Some p \<Rightarrow> hashPrevBlock header \<noteq> GetBlockHash (blockIndex (chainstate w) p))
      then (Inl (BlockHeaderError ''non-continuous headers sequence''),
            Misbehaving (nodeid pfrom) 20 ''non-continuous header sequence'' w)
      else
        (case AcceptBlockHeader env header pindexLast (chainstate w) of
           (accepted, state, pindexLast', cs') \<Rightarrow>
             if \<not> accepted \<and> IsInvalid state
             then (Inl (BlockHeaderError ''invalid header received''),
                   if nDoS state > 0
                   then Misbehaving (nodeid pfrom) (nDoS state) ''invalid header''
                          (w\<lparr>chainstate := cs'\<rparr>)
                   else w\<lparr>chainstate := cs'\<rparr>)
             else acceptHeaders_loop env pfrom rest pindexLast' (w\<lparr>chainstate := cs'\<rparr>)))"

definition acceptHeaders ::
  "'n Env \<Rightarrow> CNode \<Rightarrow> CBlockHeader list \<Rightarrow> 'n World \<Rightarrow> (error + addr option) \<times> 'n World"
where
  "acceptHeaders env pfrom headers w = acceptHeaders_loop env pfrom headers None w"

subsection \<open>findMissingBlocks\<close>

definition WALK_LIMIT :: nat where
  "WALK_LIMIT = 144"

text \<open>
  Lines 119 to 124: \<^verbatim>\<open>toFetch.push_back(walk)\<close>, then \<^verbatim>\<open>pop_front()\<close> when the deque is
  longer than the cap. The list is the deque, front first.
\<close>

definition push_trim :: "nat \<Rightarrow> addr list \<Rightarrow> addr \<Rightarrow> addr list" where
  "push_trim cap toFetch walk =
     (if length (toFetch @ [walk]) > cap then tl (toFetch @ [walk]) else toFetch @ [walk])"

text \<open>
  Lines 112 to 124, the part of the loop body after the active-chain test: a block with
  data or in flight leaves the deque as it is (\<^verbatim>\<open>continue\<close>), any other block is pushed.
\<close>

definition visit :: "'n Env \<Rightarrow> 'n World \<Rightarrow> addr list \<Rightarrow> addr \<Rightarrow> addr list" where
  "visit env w toFetch walk =
     (if nStatus (blockIndex (chainstate w) walk) AND BLOCK_HAVE_DATA env \<noteq> 0 then toFetch
      else if isInFlight env (netstate w) (GetBlockHash (blockIndex (chainstate w) walk))
      then toFetch
      else push_trim (MAX_BLOCKS_IN_TRANSIT_PER_PEER env) toFetch walk)"

text \<open>
  The do-while loop. \<open>walked\<close> is the counter before the pre-increment of line 104;
  \<^verbatim>\<open>break\<close> returns the deque; \<^verbatim>\<open>continue\<close> and the end of the body both reach the loop
  condition, which moves to \<^verbatim>\<open>pprev\<close> and leaves the loop at a null pointer.
\<close>

function findMissingBlocks_loop ::
  "'n Env \<Rightarrow> 'n World \<Rightarrow> addr \<Rightarrow> nat \<Rightarrow> addr list \<Rightarrow> addr list"
where
  "findMissingBlocks_loop env w walk walked toFetch =
     (if walked + 1 > WALK_LIMIT then []
      else if Contains (chainstate w) walk then toFetch
      else
        (case pprev (blockIndex (chainstate w) walk) of
           None \<Rightarrow> visit env w toFetch walk
         | Some parent \<Rightarrow>
             findMissingBlocks_loop env w parent (walked + 1) (visit env w toFetch walk)))"
  by pat_completeness auto
termination
  by (relation "measure (\<lambda>(env, w, walk, walked, toFetch). Suc WALK_LIMIT - walked)") auto

declare findMissingBlocks_loop.simps [simp del]

definition findMissingBlocks :: "'n Env \<Rightarrow> 'n World \<Rightarrow> addr \<Rightarrow> addr list" where
  "findMissingBlocks env w lastb = findMissingBlocks_loop env w lastb 0 []"

subsection \<open>hasEqualOrMoreWork\<close>

text \<open>\<^verbatim>\<open>&&\<close> evaluates \<^verbatim>\<open>chainActive.Tip()\<close> only when the first operand is true.\<close>

definition hasEqualOrMoreWork :: "'n Env \<Rightarrow> ChainState \<Rightarrow> addr \<Rightarrow> error + bool" where
  "hasEqualOrMoreWork env cs lastb =
     (if \<not> IsValid_TREE env (blockIndex cs lastb) then Inr False
      else (case Tip cs of
              None \<Rightarrow> Inl NullDereference
            | Some tip \<Rightarrow> Inr (nChainWork (blockIndex cs tip) \<le> nChainWork (blockIndex cs lastb))))"

subsection \<open>suggestDownload\<close>

text \<open>
  The loop of \<^verbatim>\<open>suggestDownload\<close> over the blocks in the order it visits them. Each
  call of \<^verbatim>\<open>onBlockAnnounced\<close> is recorded with its answer; \<^verbatim>\<open>break\<close> ends the loop.
\<close>

fun suggestDownload_loop ::
  "'n Env \<Rightarrow> CNode \<Rightarrow> addr list \<Rightarrow> CInv list \<Rightarrow> 'n World \<Rightarrow> CInv list \<times> 'n World"
where
  "suggestDownload_loop env pfrom [] toGet w = (toGet, w)"
| "suggestDownload_loop env pfrom (b # bs) toGet w =
     (case onBlockAnnounced env (nodeid pfrom) (GetBlockHash (blockIndex (chainstate w) b)) toGet
             (chainstate w) (netstate w) of
        (wanted, toGet', n') \<Rightarrow>
          if \<not> wanted
          then (toGet',
                w\<lparr>netstate := n',
                  trace := trace w @
                    [EvOnBlockAnnounced (GetBlockHash (blockIndex (chainstate w) b)) False]\<rparr>)
          else suggestDownload_loop env pfrom bs toGet'
                 (w\<lparr>netstate :=
                      markAsInFlight env (nodeid pfrom) (GetBlockHash (blockIndex (chainstate w) b)) n',
                    trace := trace w @
                      [EvOnBlockAnnounced (GetBlockHash (blockIndex (chainstate w) b)) True,
                       EvMarkAsInFlight (nodeid pfrom) (GetBlockHash (blockIndex (chainstate w) b))]\<rparr>))"

text \<open>Line 139 iterates \<^verbatim>\<open>boost::adaptors::reverse(toFetch)\<close>: the vector back to front.\<close>

definition suggestDownload :: "'n Env \<Rightarrow> CNode \<Rightarrow> addr list \<Rightarrow> addr \<Rightarrow> 'n World \<Rightarrow> 'n World" where
  "suggestDownload env pfrom toFetch lastb w =
     (case suggestDownload_loop env pfrom (rev toFetch) [] w of
        (toGet, w') \<Rightarrow>
          if toGet \<noteq> [] then PushMessage (nodeid pfrom) (GETDATA toGet) w' else w')"

subsection \<open>operator()\<close>

definition operator_call ::
  "'n Env \<Rightarrow> CNode \<Rightarrow> CBlockHeader list \<Rightarrow> bool \<Rightarrow> bool \<Rightarrow> 'n World
     \<Rightarrow> (error + addr option) \<times> 'n World"
where
  "operator_call env pfrom headers peerSentMax maybeAnnouncement w =
     (case acceptHeaders env pfrom headers w of
        (Inl e, w1) \<Rightarrow> (Inl e, w1)
      | (Inr pindexLast, w1) \<Rightarrow>
          (let w2 = w1\<lparr>nodeStates := (nodeStates w1)
                        (nodeid pfrom := (nodeStates w1 (nodeid pfrom))\<lparr>unconnectingHeaders := 0\<rparr>)\<rparr>
           in case pindexLast of
                None \<Rightarrow> (Inr None, checkBlockIndex w2)
              | Some lastb \<Rightarrow>
                  (let w3 = UpdateBlockAvailability (nodeid pfrom)
                              (GetBlockHash (blockIndex (chainstate w2) lastb)) w2;
                       w4 = (if peerSentMax
                             then PushMessage (nodeid pfrom)
                                    (GETHEADERS (GetLocator env (chainstate w3) (Some lastb)) 0) w3
                             else w3)
                   in if \<not> maybeAnnouncement then (Inr (Some lastb), checkBlockIndex w4)
                      else (case hasEqualOrMoreWork env (chainstate w4) lastb of
                              Inl e \<Rightarrow> (Inl e, w4)
                            | Inr False \<Rightarrow> (Inr (Some lastb), checkBlockIndex w4)
                            | Inr True \<Rightarrow>
                                (let toFetch = findMissingBlocks env w4 lastb;
                                     w5 = w4\<lparr>trace := trace w4 @
                                            [EvFindMissingBlocks lastb, EvSuggestDownload toFetch lastb]\<rparr>
                                 in (Inr (Some lastb),
                                     checkBlockIndex (suggestDownload env pfrom toFetch lastb w5)))))))"

subsection \<open>requestConnectHeaders\<close>

text \<open>\<^verbatim>\<open>%\<close> of C++ truncates towards zero: \<open>smod\<close>.\<close>

definition requestConnectHeaders ::
  "'n Env \<Rightarrow> CBlockHeader \<Rightarrow> CNode \<Rightarrow> bool \<Rightarrow> 'n World \<Rightarrow> bool \<times> 'n World"
where
  "requestConnectHeaders env h from bumpUnconnecting w =
     (if headerConnects (chainstate w) h then (False, w)
      else
        (let w1 = UpdateBlockAvailability (nodeid from) (GetHash h) w;
             w2 = PushMessage (nodeid from)
                    (GETHEADERS (GetLocator env (chainstate w1) (pindexBestHeader (chainstate w1))) 0)
                    w1
         in if \<not> bumpUnconnecting then (True, w2)
            else
              (let unconnecting = unconnectingHeaders (nodeStates w2 (nodeid from)) + 1;
                   w3 = w2\<lparr>nodeStates := (nodeStates w2)
                           (nodeid from := (nodeStates w2 (nodeid from))
                              \<lparr>unconnectingHeaders := unconnecting\<rparr>)\<rparr>
               in (True,
                   if unconnecting smod MAX_UNCONNECTING_HEADERS = 0
                   then Misbehaving (nodeid from) 20 ''unconnecting-headers'' w3
                   else w3))))"

section \<open>Notions used to state the properties\<close>

text \<open>
  The first \<open>n\<close> blocks of the \<^verbatim>\<open>pprev\<close> chain that starts at \<open>p\<close>: \<open>p\<close> itself first,
  then its parent, and so on, until \<open>n\<close> blocks are listed or a null \<^verbatim>\<open>pprev\<close> ends the
  chain.
\<close>

fun ancestors :: "(addr \<Rightarrow> CBlockIndex) \<Rightarrow> addr \<Rightarrow> nat \<Rightarrow> addr list" where
  "ancestors bi p 0 = []"
| "ancestors bi p (Suc n) =
     p # (case pprev (bi p) of None \<Rightarrow> [] | Some q \<Rightarrow> ancestors bi q n)"

text \<open>The gap of a tip: its ancestors (itself first) before the first one on the active chain.\<close>

definition gap :: "'n World \<Rightarrow> addr \<Rightarrow> addr list" where
  "gap w tip =
     takeWhile (\<lambda>p. \<not> Contains (chainstate w) p)
       (ancestors (blockIndex (chainstate w)) tip WALK_LIMIT)"

text \<open>A block is missing when it has no data and is not in flight.\<close>

definition missing :: "'n Env \<Rightarrow> 'n World \<Rightarrow> addr \<Rightarrow> bool" where
  "missing env w p =
     (nStatus (blockIndex (chainstate w) p) AND BLOCK_HAVE_DATA env = 0 \<and>
      \<not> isInFlight env (netstate w) (GetBlockHash (blockIndex (chainstate w) p)))"

text \<open>The events a call added to the trace: those after the ones of the world before.\<close>

definition new_events :: "'n World \<Rightarrow> 'n World \<Rightarrow> event list" where
  "new_events w w' = drop (length (trace w)) (trace w')"

fun is_report :: "event \<Rightarrow> bool" where
  "is_report (EvMisbehaving n howmuch reason) = True"
| "is_report e = False"

fun is_push :: "event \<Rightarrow> bool" where
  "is_push (EvPushMessage n msg) = True"
| "is_push e = False"

text \<open>The events that \<^verbatim>\<open>suggestDownload\<close> makes.\<close>

fun is_fetch :: "event \<Rightarrow> bool" where
  "is_fetch (EvOnBlockAnnounced h wanted) = True"
| "is_fetch (EvMarkAsInFlight n h) = True"
| "is_fetch (EvPushMessage n (GETDATA invs)) = True"
| "is_fetch e = False"

text \<open>The hashes marked in flight, and the hashes put to the admission policy, in order.\<close>

fun marked :: "event list \<Rightarrow> uint256 list" where
  "marked [] = []"
| "marked (EvMarkAsInFlight n h # es) = h # marked es"
| "marked (e # es) = marked es"

fun evaluated :: "event list \<Rightarrow> uint256 list" where
  "evaluated [] = []"
| "evaluated (EvOnBlockAnnounced h wanted # es) = h # evaluated es"
| "evaluated (e # es) = evaluated es"

text \<open>The hashes put to the admission policy with the answer it gave, in order.\<close>

fun decisions :: "event list \<Rightarrow> (uint256 \<times> bool) list" where
  "decisions [] = []"
| "decisions (EvOnBlockAnnounced h wanted # es) = (h, wanted) # decisions es"
| "decisions (e # es) = decisions es"

text \<open>The inventories of the getdata messages pushed, in order.\<close>

fun getdata_sent :: "event list \<Rightarrow> CInv list list" where
  "getdata_sent [] = []"
| "getdata_sent (EvPushMessage n (GETDATA invs) # es) = invs # getdata_sent es"
| "getdata_sent (e # es) = getdata_sent es"

text \<open>
  The window in the order the spec calls nearest-known-chain-first: the hashes of the
  vector that \<^verbatim>\<open>findMissingBlocks\<close> returned, back to front.
\<close>

definition chain_first :: "'n World \<Rightarrow> addr list \<Rightarrow> uint256 list" where
  "chain_first w toFetch = map (\<lambda>b. GetBlockHash (blockIndex (chainstate w) b)) (rev toFetch)"

text \<open>
  The admission contract of the spec (4.5): an admitted hash is appended to the outgoing
  inventory, a declined one leaves it as it is.
\<close>

definition appends_when_admitted :: "'n Env \<Rightarrow> int \<Rightarrow> bool" where
  "appends_when_admitted env kind =
     (\<forall>n h toGet cs st.
        snd (onBlockAnnounced env n h toGet cs st) =
          (if fst (onBlockAnnounced env n h toGet cs st) then toGet @ [CInv kind h] else toGet,
           snd (snd (onBlockAnnounced env n h toGet cs st))))"

text \<open>
  The admission run as the spec words it (4.5): the hashes are put to the admission
  policy in the given order; an admitted hash is marked in flight before the next one is
  asked; the run stops at the first hash the policy declines. \<open>admit_prefix\<close> is the list
  of the hashes the policy admits in such a run, started with the inventory \<open>toGet\<close> and
  the state \<open>st\<close> of the in-flight index and thin-block manager.
\<close>

fun admit_prefix ::
  "'n Env \<Rightarrow> NodeId \<Rightarrow> ChainState \<Rightarrow> uint256 list \<Rightarrow> CInv list \<Rightarrow> 'n \<Rightarrow> uint256 list"
where
  "admit_prefix env peer cs [] toGet st = []"
| "admit_prefix env peer cs (h # hs) toGet st =
     (if fst (onBlockAnnounced env peer h toGet cs st)
      then h # admit_prefix env peer cs hs (fst (snd (onBlockAnnounced env peer h toGet cs st)))
                 (markAsInFlight env peer h (snd (snd (onBlockAnnounced env peer h toGet cs st))))
      else [])"

text \<open>
  The events of such a run over the hashes \<open>hs\<close> that admits \<open>adm\<close>: for each admitted hash
  the decision (yes) and the in-flight mark, then the decision (no) for the next hash of
  \<open>hs\<close>, if there is one, and nothing for the hashes after it.
\<close>

definition admission_events :: "NodeId \<Rightarrow> uint256 list \<Rightarrow> uint256 list \<Rightarrow> event list" where
  "admission_events peer hs adm =
     concat (map (\<lambda>h. [EvOnBlockAnnounced h True, EvMarkAsInFlight peer h]) adm) @
     (if length adm < length hs then [EvOnBlockAnnounced (hs ! length adm) False] else [])"

text \<open>
  The locator that the sentence of the spec describes: built from the peer's best known
  header (the header its \<open>bestKnownHeader\<close> names, null when there is none).
\<close>

definition peerBestKnownLocator :: "'n Env \<Rightarrow> 'n World \<Rightarrow> NodeId \<Rightarrow> CBlockLocator" where
  "peerBestKnownLocator env w n =
     GetLocator env (chainstate w)
       (case bestKnownHeader (nodeStates w n) of
          None \<Rightarrow> None
        | Some h \<Rightarrow> mapBlockIndex (chainstate w) h)"

text \<open>
  A run of calls of \<^verbatim>\<open>requestConnectHeaders\<close> for one peer, one per header, each with
  \<^verbatim>\<open>bumpUnconnecting\<close> true and nothing in between.
\<close>

fun requestConnectHeaders_run :: "'n Env \<Rightarrow> CNode \<Rightarrow> CBlockHeader list \<Rightarrow> 'n World \<Rightarrow> 'n World" where
  "requestConnectHeaders_run env from [] w = w"
| "requestConnectHeaders_run env from (h # hs) w =
     requestConnectHeaders_run env from hs (snd (requestConnectHeaders env h from True w))"

section \<open>An instance of the parameters\<close>

text \<open>
  A small node on which the functions are run: every block sits at the address that is
  the number of its hash. Blocks \<open>0x9F\<close> and \<open>0xA0\<close> are the active chain, \<open>0xA0\<close> its tip;
  \<open>0xB1\<close>, \<open>0xB2\<close>, \<open>0xB3\<close> are a side branch on top of the tip, known by header only;
  \<open>0xF0\<close> is a block marked failed.
  The status bits are those of the upstream chain.h (valid-tree level 2, have-data 8,
  failed 32 and 64).
\<close>

definition ex_block :: "uint256 \<Rightarrow> addr option \<Rightarrow> int \<Rightarrow> 32 word \<Rightarrow> uint256 \<Rightarrow> CBlockIndex" where
  "ex_block h p ht st wk =
     \<lparr>phashBlock = h, pprev = p, nHeight = ht, nStatus = st, nChainWork = wk\<rparr>"

definition ex_chain :: ChainState where
  "ex_chain =
     \<lparr>blockIndex = (\<lambda>a. ex_block 0 None 0 0 0)
        (159 := ex_block 0x9F None 99 10 99,
         160 := ex_block 0xA0 (Some 159) 100 10 100,
         177 := ex_block 0xB1 (Some 160) 101 2 101,
         178 := ex_block 0xB2 (Some 177) 102 2 102,
         179 := ex_block 0xB3 (Some 178) 103 2 103,
         240 := ex_block 0xF0 (Some 160) 101 32 101),
      mapBlockIndex =
        [0x9F \<mapsto> 159, 0xA0 \<mapsto> 160, 0xB1 \<mapsto> 177, 0xB2 \<mapsto> 178, 0xB3 \<mapsto> 179, 0xF0 \<mapsto> 240],
      chainActive = [159, 160],
      pindexBestHeader = Some 179\<rparr>"

text \<open>Peer 7 has announced \<open>0xB1\<close> as its best block; nothing is in flight.\<close>

definition ex_world :: "uint256 list World" where
  "ex_world =
     \<lparr>chainstate = ex_chain,
      nodeStates = (\<lambda>n. \<lparr>unconnectingHeaders = 0, bestKnownHeader = None\<rparr>)
        (7 := \<lparr>unconnectingHeaders = 0, bestKnownHeader = Some 0xB1\<rparr>),
      netstate = [],
      trace = []\<rparr>"

definition ex_peer :: CNode where
  "ex_peer = \<lparr>nodeid = 7, nStartingHeight = 100\<rparr>"

text \<open>
  A header acceptance in the manner of the upstream one: a known header is returned
  again (rejected without penalty when its block is marked failed); a hash above the
  target \<open>0xE0\<close> fails the proof of work and is rejected with penalty 50, an unknown
  parent with penalty 10, a failed parent with penalty 100; any other header gets a new
  object on top of its parent.
\<close>

definition ex_AcceptBlockHeader ::
  "CBlockHeader \<Rightarrow> addr option \<Rightarrow> ChainState \<Rightarrow> bool \<times> CValidationState \<times> addr option \<times> ChainState"
where
  "ex_AcceptBlockHeader header pindexLast cs =
     (case mapBlockIndex cs (GetHash header) of
        Some p \<Rightarrow>
          if nStatus (blockIndex cs p) AND 96 \<noteq> 0
          then (False, \<lparr>mode = MODE_INVALID, nDoS = 0\<rparr>, Some p, cs)
          else (True, \<lparr>mode = MODE_VALID, nDoS = 0\<rparr>, Some p, cs)
      | None \<Rightarrow>
          if GetHash header > 0xE0
          then (False, \<lparr>mode = MODE_INVALID, nDoS = 50\<rparr>, pindexLast, cs)
          else
          (case mapBlockIndex cs (hashPrevBlock header) of
             None \<Rightarrow> (False, \<lparr>mode = MODE_INVALID, nDoS = 10\<rparr>, pindexLast, cs)
           | Some q \<Rightarrow>
               if nStatus (blockIndex cs q) AND 96 \<noteq> 0
               then (False, \<lparr>mode = MODE_INVALID, nDoS = 100\<rparr>, pindexLast, cs)
               else (True, \<lparr>mode = MODE_VALID, nDoS = 0\<rparr>, Some (unat (GetHash header)),
                     cs\<lparr>blockIndex := (blockIndex cs)
                          (unat (GetHash header) :=
                             ex_block (GetHash header) (Some q) (nHeight (blockIndex cs q) + 1) 2
                               (nChainWork (blockIndex cs q) + 1)),
                        mapBlockIndex := (mapBlockIndex cs)
                          (GetHash header \<mapsto> unat (GetHash header))\<rparr>)))"

text \<open>
  The instance: transit cap \<open>cap\<close>; a locator of one hash; an in-flight index that is the
  list of the hashes in flight; an admission that takes a block as long as fewer than
  \<open>room\<close> are in the inventory, and appends it as a block inventory (kind 2).
\<close>

definition ex_env :: "nat \<Rightarrow> nat \<Rightarrow> uint256 list Env" where
  "ex_env cap room =
     \<lparr>MAX_BLOCKS_IN_TRANSIT_PER_PEER = cap,
      BLOCK_HAVE_DATA = 8,
      IsValid_TREE = (\<lambda>b. nStatus b AND 96 = 0 \<and> 2 \<le> (nStatus b AND 7)),
      AcceptBlockHeader = ex_AcceptBlockHeader,
      GetLocator = (\<lambda>cs p. case p of None \<Rightarrow> [] | Some a \<Rightarrow> [GetBlockHash (blockIndex cs a)]),
      isInFlight = (\<lambda>n h. h \<in> set n),
      markAsInFlight = (\<lambda>peer h n. n @ [h]),
      onBlockAnnounced = (\<lambda>peer h toGet cs n.
        if length toGet < room then (True, toGet @ [CInv 2 h], n) else (False, toGet, n))\<rparr>"

definition ex_header :: "uint256 \<Rightarrow> uint256 \<Rightarrow> CBlockHeader" where
  "ex_header h prev = \<lparr>hashPrevBlock = prev, GetHash = h\<rparr>"

section \<open>Properties of acceptHeaders\<close>

lemmas ex_defs = ex_env_def ex_world_def ex_chain_def ex_peer_def ex_header_def ex_block_def
  ex_AcceptBlockHeader_def

text \<open>A prefix of the batch that is gone through without a throw hands over its state.\<close>

lemma acceptHeaders_loop_append:
  "acceptHeaders_loop env pfrom pre p w = (Inr p1, w1) \<Longrightarrow>
   acceptHeaders_loop env pfrom (pre @ rest) p w = acceptHeaders_loop env pfrom rest p1 w1"
  by (induction pre arbitrary: p w) (auto split: if_splits prod.splits option.splits)

text \<open>A batch gone through without a throw has reported nothing.\<close>

lemma acceptHeaders_loop_Inr:
  "acceptHeaders_loop env pfrom hs p w = (Inr p1, w1) \<Longrightarrow>
   trace w1 = trace w \<and> nodeStates w1 = nodeStates w \<and> netstate w1 = netstate w"
  by (induction hs arbitrary: p w) (auto split: if_splits prod.splits option.splits)

text \<open>
  C4. A batch whose first header \<open>h1\<close> is accepted (the chain index returns true and the
  object \<open>p1\<close> of \<open>h1\<close>, committed under the hash of \<open>h1\<close>) and whose second header does not
  name the hash of \<open>h1\<close> as its previous hash: \<^verbatim>\<open>acceptHeaders\<close> throws the
  \<^verbatim>\<open>BlockHeaderError\<close> of the non-continuous sequence, the call adds exactly one event to
  the trace, a misbehaviour report of 20 points, and the chain state afterwards is the
  one the acceptance of \<open>h1\<close> left: \<open>h1\<close> is still in \<^verbatim>\<open>mapBlockIndex\<close>.
\<close>

theorem acceptHeaders_broken_continuity:
  assumes h1: "AcceptBlockHeader env h1 None (chainstate w) = (True, st, Some p1, cs1)"
      and committed: "mapBlockIndex cs1 (GetHash h1) = Some p1"
      and hash1: "GetBlockHash (blockIndex cs1 p1) = GetHash h1"
      and h2: "hashPrevBlock h2 \<noteq> GetHash h1"
  shows "fst (acceptHeaders env pfrom (h1 # h2 # rest) w) =
           Inl (BlockHeaderError ''non-continuous headers sequence'') \<and>
         new_events w (snd (acceptHeaders env pfrom (h1 # h2 # rest) w)) =
           [EvMisbehaving (nodeid pfrom) 20 ''non-continuous header sequence''] \<and>
         chainstate (snd (acceptHeaders env pfrom (h1 # h2 # rest) w)) = cs1 \<and>
         mapBlockIndex (chainstate (snd (acceptHeaders env pfrom (h1 # h2 # rest) w))) (GetHash h1)
           = Some p1"
  using assms by (simp add: acceptHeaders_def new_events_def Misbehaving_def)

theorem acceptHeaders_broken_continuity_witness:
  "fst (acceptHeaders (ex_env 2 2) ex_peer [ex_header 0xC1 0xA0, ex_header 0xC9 0xB1] ex_world) =
     Inl (BlockHeaderError ''non-continuous headers sequence'') \<and>
   new_events ex_world
     (snd (acceptHeaders (ex_env 2 2) ex_peer [ex_header 0xC1 0xA0, ex_header 0xC9 0xB1] ex_world)) =
     [EvMisbehaving 7 20 ''non-continuous header sequence''] \<and>
   mapBlockIndex (chainstate
     (snd (acceptHeaders (ex_env 2 2) ex_peer [ex_header 0xC1 0xA0, ex_header 0xC9 0xB1] ex_world)))
     0xC1 = Some 193"
proof -
  let ?cs1 = "ex_chain\<lparr>blockIndex := (blockIndex ex_chain)(193 := ex_block 0xC1 (Some 160) 101 2 101),
                mapBlockIndex := (mapBlockIndex ex_chain)(0xC1 \<mapsto> 193)\<rparr>"
  have a: "AcceptBlockHeader (ex_env 2 2) (ex_header 0xC1 0xA0) None (chainstate ex_world) =
        (True, \<lparr>mode = MODE_VALID, nDoS = 0\<rparr>, Some 193, ?cs1)"
    by (simp add: ex_defs)
  have b: "mapBlockIndex ?cs1 (GetHash (ex_header 0xC1 0xA0)) = Some 193"
    by (simp add: ex_defs)
  have c: "GetBlockHash (blockIndex ?cs1 193) = GetHash (ex_header 0xC1 0xA0)"
    by (simp add: ex_defs GetBlockHash_def)
  have d: "hashPrevBlock (ex_header 0xC9 0xB1) \<noteq> GetHash (ex_header 0xC1 0xA0)"
    by (simp add: ex_defs)
  show ?thesis
    using acceptHeaders_broken_continuity [OF a b c d, of ex_peer "[]"]
    by (simp add: ex_peer_def ex_header_def)
qed

text \<open>
  C5, as the spec words it, fails: the report carries the penalty that the validation
  state hands out, not 20 points. Here the chain index rejects a header on top of a
  failed block with penalty 100, and the report made is one of 100 points.
\<close>

theorem acceptHeaders_invalid_penalty_counterexample:
  "fst (snd (AcceptBlockHeader (ex_env 2 2) (ex_header 0xD1 0xF0) None (chainstate ex_world))) =
     \<lparr>mode = MODE_INVALID, nDoS = 100\<rparr> \<and>
   new_events ex_world (snd (acceptHeaders (ex_env 2 2) ex_peer [ex_header 0xD1 0xF0] ex_world)) =
     [EvMisbehaving 7 100 ''invalid header''] \<and>
   EvMisbehaving 7 20 ''invalid header'' \<notin>
     set (trace (snd (acceptHeaders (ex_env 2 2) ex_peer [ex_header 0xD1 0xF0] ex_world)))"
  by (simp add: acceptHeaders_def new_events_def Misbehaving_def IsInvalid_def ex_defs)

text \<open>
  C5, amended. The headers \<open>pre\<close> are gone through without a throw, the next header \<open>h\<close>
  passes the continuity test, and the chain index rejects it: it returns false with a
  validation state in mode invalid whose penalty \<open>nDoS\<close> is positive. Then
  \<^verbatim>\<open>acceptHeaders\<close> throws the \<^verbatim>\<open>BlockHeaderError\<close> of the invalid header, and the call adds
  exactly one event to the trace: a misbehaviour report of \<open>nDoS\<close> points with reason
  "invalid header". The chain state is the one the rejecting call left.
\<close>

theorem acceptHeaders_invalid_penalty:
  assumes pre: "acceptHeaders env pfrom pre w = (Inr p1, w1)"
      and continuous:
        "case p1 of None \<Rightarrow> True
         | Some p \<Rightarrow> hashPrevBlock h = GetBlockHash (blockIndex (chainstate w1) p)"
      and rejected: "AcceptBlockHeader env h p1 (chainstate w1) = (False, st, p', cs')"
      and invalid: "mode st = MODE_INVALID"
      and penalty: "0 < nDoS st"
  shows "fst (acceptHeaders env pfrom (pre @ h # rest) w) =
           Inl (BlockHeaderError ''invalid header received'') \<and>
         new_events w (snd (acceptHeaders env pfrom (pre @ h # rest) w)) =
           [EvMisbehaving (nodeid pfrom) (nDoS st) ''invalid header''] \<and>
         chainstate (snd (acceptHeaders env pfrom (pre @ h # rest) w)) = cs'"
proof -
  from pre have run: "acceptHeaders_loop env pfrom pre None w = (Inr p1, w1)"
    by (simp add: acceptHeaders_def)
  have same: "trace w1 = trace w"
    using acceptHeaders_loop_Inr [OF run] by simp
  have "acceptHeaders env pfrom (pre @ h # rest) w = acceptHeaders_loop env pfrom (h # rest) p1 w1"
    using acceptHeaders_loop_append [OF run] by (simp add: acceptHeaders_def)
  also have "\<dots> = (Inl (BlockHeaderError ''invalid header received''),
                   Misbehaving (nodeid pfrom) (nDoS st) ''invalid header'' (w1\<lparr>chainstate := cs'\<rparr>))"
    using continuous rejected invalid penalty
    by (cases p1) (simp_all add: IsInvalid_def)
  finally show ?thesis
    by (simp add: new_events_def Misbehaving_def same)
qed

theorem acceptHeaders_invalid_penalty_witness:
  "fst (acceptHeaders (ex_env 2 2) ex_peer
          [ex_header 0xC1 0xA0, ex_header 0xE5 0xC1, ex_header 0xC3 0xE5] ex_world) =
     Inl (BlockHeaderError ''invalid header received'') \<and>
   new_events ex_world (snd (acceptHeaders (ex_env 2 2) ex_peer
          [ex_header 0xC1 0xA0, ex_header 0xE5 0xC1, ex_header 0xC3 0xE5] ex_world)) =
     [EvMisbehaving 7 50 ''invalid header''] \<and>
   mapBlockIndex (chainstate (snd (acceptHeaders (ex_env 2 2) ex_peer
          [ex_header 0xC1 0xA0, ex_header 0xE5 0xC1, ex_header 0xC3 0xE5] ex_world))) 0xC1 =
     Some 193"
proof -
  let ?cs1 = "ex_chain\<lparr>blockIndex := (blockIndex ex_chain)(193 := ex_block 0xC1 (Some 160) 101 2 101),
                mapBlockIndex := (mapBlockIndex ex_chain)(0xC1 \<mapsto> 193)\<rparr>"
  let ?st = "\<lparr>mode = MODE_INVALID, nDoS = 50\<rparr>"
  have a: "acceptHeaders (ex_env 2 2) ex_peer [ex_header 0xC1 0xA0] ex_world =
             (Inr (Some 193), ex_world\<lparr>chainstate := ?cs1\<rparr>)"
    by (simp add: acceptHeaders_def IsInvalid_def ex_defs)
  have b: "case Some 193 of None \<Rightarrow> True
           | Some p \<Rightarrow> hashPrevBlock (ex_header 0xE5 0xC1) =
               GetBlockHash (blockIndex (chainstate (ex_world\<lparr>chainstate := ?cs1\<rparr>)) p)"
    by (simp add: GetBlockHash_def ex_defs)
  have c: "AcceptBlockHeader (ex_env 2 2) (ex_header 0xE5 0xC1) (Some 193)
             (chainstate (ex_world\<lparr>chainstate := ?cs1\<rparr>)) = (False, ?st, Some 193, ?cs1)"
    by (simp add: ex_defs)
  have d: "mode ?st = MODE_INVALID" by simp
  have e: "0 < nDoS ?st" by simp
  show ?thesis
    using acceptHeaders_invalid_penalty [OF a b c d e, of "[ex_header 0xC3 0xE5]"]
    by (simp add: ex_defs)
qed

text \<open>
  C10. As before, but the penalty of the invalid state is not positive: \<^verbatim>\<open>acceptHeaders\<close>
  throws the same \<^verbatim>\<open>BlockHeaderError\<close>, the call adds no event to the trace (no report),
  and the world is the one after the headers gone through before, with the chain state
  that the rejecting call left: nothing accepted earlier in the call is undone.
\<close>

theorem acceptHeaders_invalid_no_penalty:
  assumes pre: "acceptHeaders env pfrom pre w = (Inr p1, w1)"
      and continuous:
        "case p1 of None \<Rightarrow> True
         | Some p \<Rightarrow> hashPrevBlock h = GetBlockHash (blockIndex (chainstate w1) p)"
      and rejected: "AcceptBlockHeader env h p1 (chainstate w1) = (False, st, p', cs')"
      and invalid: "mode st = MODE_INVALID"
      and penalty: "nDoS st \<le> 0"
  shows "fst (acceptHeaders env pfrom (pre @ h # rest) w) =
           Inl (BlockHeaderError ''invalid header received'') \<and>
         new_events w (snd (acceptHeaders env pfrom (pre @ h # rest) w)) = [] \<and>
         snd (acceptHeaders env pfrom (pre @ h # rest) w) = w1\<lparr>chainstate := cs'\<rparr>"
proof -
  from pre have run: "acceptHeaders_loop env pfrom pre None w = (Inr p1, w1)"
    by (simp add: acceptHeaders_def)
  have same: "trace w1 = trace w"
    using acceptHeaders_loop_Inr [OF run] by simp
  have "acceptHeaders env pfrom (pre @ h # rest) w = acceptHeaders_loop env pfrom (h # rest) p1 w1"
    using acceptHeaders_loop_append [OF run] by (simp add: acceptHeaders_def)
  also have "\<dots> = (Inl (BlockHeaderError ''invalid header received''), w1\<lparr>chainstate := cs'\<rparr>)"
    using continuous rejected invalid penalty
    by (cases p1) (simp_all add: IsInvalid_def)
  finally show ?thesis
    by (simp add: new_events_def same)
qed

theorem acceptHeaders_invalid_no_penalty_witness:
  "fst (acceptHeaders (ex_env 2 2) ex_peer
          [ex_header 0xC1 0xA0, ex_header 0xF0 0xC1, ex_header 0xC3 0xF0] ex_world) =
     Inl (BlockHeaderError ''invalid header received'') \<and>
   new_events ex_world (snd (acceptHeaders (ex_env 2 2) ex_peer
          [ex_header 0xC1 0xA0, ex_header 0xF0 0xC1, ex_header 0xC3 0xF0] ex_world)) = [] \<and>
   mapBlockIndex (chainstate (snd (acceptHeaders (ex_env 2 2) ex_peer
          [ex_header 0xC1 0xA0, ex_header 0xF0 0xC1, ex_header 0xC3 0xF0] ex_world))) 0xC1 =
     Some 193"
proof -
  let ?cs1 = "ex_chain\<lparr>blockIndex := (blockIndex ex_chain)(193 := ex_block 0xC1 (Some 160) 101 2 101),
                mapBlockIndex := (mapBlockIndex ex_chain)(0xC1 \<mapsto> 193)\<rparr>"
  let ?st = "\<lparr>mode = MODE_INVALID, nDoS = 0\<rparr>"
  have a: "acceptHeaders (ex_env 2 2) ex_peer [ex_header 0xC1 0xA0] ex_world =
             (Inr (Some 193), ex_world\<lparr>chainstate := ?cs1\<rparr>)"
    by (simp add: acceptHeaders_def IsInvalid_def ex_defs)
  have b: "case Some 193 of None \<Rightarrow> True
           | Some p \<Rightarrow> hashPrevBlock (ex_header 0xF0 0xC1) =
               GetBlockHash (blockIndex (chainstate (ex_world\<lparr>chainstate := ?cs1\<rparr>)) p)"
    by (simp add: GetBlockHash_def ex_defs)
  have c: "AcceptBlockHeader (ex_env 2 2) (ex_header 0xF0 0xC1) (Some 193)
             (chainstate (ex_world\<lparr>chainstate := ?cs1\<rparr>)) = (False, ?st, Some 240, ?cs1)"
    by (simp add: ex_defs)
  have d: "mode ?st = MODE_INVALID" by simp
  have e: "nDoS ?st \<le> 0" by simp
  show ?thesis
    using acceptHeaders_invalid_no_penalty [OF a b c d e, of "[ex_header 0xC3 0xF0]"]
    by (simp add: new_events_def)
qed

section \<open>Properties of findMissingBlocks\<close>

text \<open>
  Pushing a run of blocks into a deque that holds at most \<open>C\<close>: what is left is the tail of
  everything pushed, since each overflow drops the front.
\<close>

lemma foldl_push_trim:
  "length tf \<le> C \<Longrightarrow>
   foldl (push_trim C) tf xs = drop (length tf + length xs - C) (tf @ xs)"
proof (induction xs arbitrary: tf)
  case Nil
  then show ?case by simp
next
  case (Cons x xs)
  show ?case
  proof (cases "length tf = C")
    case True
    then have step: "push_trim C tf x = tl (tf @ [x])"
      by (simp add: push_trim_def)
    have len: "length (tl (tf @ [x])) \<le> C"
      using True by simp
    have "foldl (push_trim C) (tl (tf @ [x])) xs =
            drop (length (tl (tf @ [x])) + length xs - C) (tl (tf @ [x]) @ xs)"
      by (rule Cons.IH [OF len])
    also have "\<dots> = drop (length xs) (tl (tf @ [x]) @ xs)"
      using True by simp
    also have "tl (tf @ [x]) @ xs = tl (tf @ x # xs)"
      by (cases tf) simp_all
    also have "drop (length xs) (tl (tf @ x # xs)) = drop (Suc (length xs)) (tf @ x # xs)"
      by (simp only: drop_Suc)
    finally show ?thesis
      using True step by simp
  next
    case False
    with Cons.prems have lt: "length tf < C" by simp
    then have step: "push_trim C tf x = tf @ [x]"
      by (simp add: push_trim_def)
    have len: "length (tf @ [x]) \<le> C"
      using lt by simp
    show ?thesis
      using Cons.IH [OF len] step by simp
  qed
qed

text \<open>Going over a run of blocks pushes the missing ones.\<close>

lemma foldl_visit:
  "foldl (visit env w) tf xs =
   foldl (push_trim (MAX_BLOCKS_IN_TRANSIT_PER_PEER env)) tf (filter (missing env w) xs)"
  by (induction xs arbitrary: tf) (auto simp: visit_def missing_def)

text \<open>
  The loop with \<open>n\<close> visits left before the walk limit. It gives up (the empty vector) when
  \<open>n\<close> blocks off the active chain are followed by one more block; otherwise it returns
  the deque after going over the blocks before the first one on the active chain.
\<close>

lemma findMissingBlocks_loop_char:
  "walked + n = WALK_LIMIT \<Longrightarrow>
   findMissingBlocks_loop env w walk walked tf =
     (if length (takeWhile (\<lambda>p. \<not> Contains (chainstate w) p)
                  (ancestors (blockIndex (chainstate w)) walk n)) = n \<and>
         length (ancestors (blockIndex (chainstate w)) walk (Suc n)) = Suc n
      then []
      else foldl (visit env w) tf
             (takeWhile (\<lambda>p. \<not> Contains (chainstate w) p)
                (ancestors (blockIndex (chainstate w)) walk n)))"
proof (induction n arbitrary: walk walked tf)
  case 0
  then show ?case
    by (subst findMissingBlocks_loop.simps) (simp split: option.splits)
next
  case (Suc m)
  then have w: "Suc walked + m = WALK_LIMIT" "\<not> walked + 1 > WALK_LIMIT"
    by simp_all
  show ?case
  proof (cases "Contains (chainstate w) walk")
    case True
    then show ?thesis
      using w by (subst findMissingBlocks_loop.simps) simp
  next
    case False
    show ?thesis
    proof (cases "pprev (blockIndex (chainstate w) walk)")
      case None
      then show ?thesis
        using w False by (subst findMissingBlocks_loop.simps) simp
    next
      case (Some parent)
      then show ?thesis
        using w False Suc.IH [OF w(1), of parent "visit env w tf walk"]
        by (subst findMissingBlocks_loop.simps) simp
    qed
  qed
qed


text \<open>The result of \<^verbatim>\<open>findMissingBlocks\<close> for every tip.\<close>

lemma findMissingBlocks_char:
  "findMissingBlocks env w tip =
     (if length (gap w tip) = WALK_LIMIT \<and>
         length (ancestors (blockIndex (chainstate w)) tip (Suc WALK_LIMIT)) = Suc WALK_LIMIT
      then []
      else drop (length (filter (missing env w) (gap w tip)) - MAX_BLOCKS_IN_TRANSIT_PER_PEER env)
             (filter (missing env w) (gap w tip)))"
  using findMissingBlocks_loop_char [of 0 WALK_LIMIT env w tip "[]"]
  by (simp add: findMissingBlocks_def gap_def foldl_visit foldl_push_trim)

lemma ancestors_unfold:
  "0 < n \<Longrightarrow>
   ancestors bi p n = p # (case pprev (bi p) of None \<Rightarrow> [] | Some q \<Rightarrow> ancestors bi q (n - 1))"
  by (cases n) (auto split: option.splits)

lemma length_ancestors: "length (ancestors bi p n) \<le> n"
  by (induction n arbitrary: p) (auto split: option.splits)

lemma gap_short:
  assumes "\<exists>p \<in> set (ancestors (blockIndex (chainstate w)) tip WALK_LIMIT). Contains (chainstate w) p"
  shows "length (gap w tip) < WALK_LIMIT"
proof -
  let ?anc = "ancestors (blockIndex (chainstate w)) tip WALK_LIMIT"
  have "gap w tip \<noteq> ?anc"
    using assms unfolding gap_def by (metis takeWhile_eq_all_conv)
  then have "length (gap w tip) < length ?anc"
    unfolding gap_def
    by (metis length_takeWhile_le le_neq_implies_less takeWhile_eq_take take_all_iff)
  then show ?thesis
    using length_ancestors [of "blockIndex (chainstate w)" tip WALK_LIMIT] by simp
qed

text \<open>
  C2. The walk from \<open>tip\<close> reaches the active chain (one of the 144 blocks it may visit is
  on the active chain), and \<open>K\<close> of the blocks it passes before are missing (no data, not
  in flight), with \<open>K\<close> above the transit cap. Then \<^verbatim>\<open>findMissingBlocks\<close> returns exactly
  cap many blocks, and they are the last cap many of the missing blocks in walk order,
  that is the cap many nearest the active chain: read from the chain end, the result is
  the first cap many of the missing blocks read from the chain end.
\<close>

theorem findMissingBlocks_window_trimmed:
  assumes reach: "\<exists>p \<in> set (ancestors (blockIndex (chainstate w)) tip WALK_LIMIT).
                    Contains (chainstate w) p"
      and K: "K = length (filter (missing env w) (gap w tip))"
      and over: "MAX_BLOCKS_IN_TRANSIT_PER_PEER env < K"
  shows "length (findMissingBlocks env w tip) = MAX_BLOCKS_IN_TRANSIT_PER_PEER env \<and>
         findMissingBlocks env w tip =
           drop (K - MAX_BLOCKS_IN_TRANSIT_PER_PEER env) (filter (missing env w) (gap w tip)) \<and>
         rev (findMissingBlocks env w tip) =
           take (MAX_BLOCKS_IN_TRANSIT_PER_PEER env) (rev (filter (missing env w) (gap w tip)))"
proof -
  have eq: "findMissingBlocks env w tip =
           drop (K - MAX_BLOCKS_IN_TRANSIT_PER_PEER env) (filter (missing env w) (gap w tip))"
    using gap_short [OF reach] K by (simp add: findMissingBlocks_char)
  have len: "length (findMissingBlocks env w tip) = MAX_BLOCKS_IN_TRANSIT_PER_PEER env"
    using K over by (simp add: eq)
  have "rev (findMissingBlocks env w tip) =
          take (MAX_BLOCKS_IN_TRANSIT_PER_PEER env) (rev (filter (missing env w) (gap w tip)))"
    using K over by (simp add: eq rev_drop)
  with eq len show ?thesis by simp
qed

lemma ex_gap: "gap ex_world 179 = [179, 178, 177]"
  by (simp add: gap_def WALK_LIMIT_def ancestors_unfold Contains_def ex_defs)

theorem findMissingBlocks_window_trimmed_witness:
  "length (findMissingBlocks (ex_env 2 2) ex_world 179) = 2 \<and>
   findMissingBlocks (ex_env 2 2) ex_world 179 = [178, 177] \<and>
   rev (findMissingBlocks (ex_env 2 2) ex_world 179) = [177, 178]"
proof -
  have a: "\<exists>p \<in> set (ancestors (blockIndex (chainstate ex_world)) 179 WALK_LIMIT).
             Contains (chainstate ex_world) p"
    by (simp add: WALK_LIMIT_def ancestors_unfold Contains_def ex_defs)
  have m: "filter (missing (ex_env 2 2) ex_world) (gap ex_world 179) = [179, 178, 177]"
    by (simp add: ex_gap) (simp add: missing_def GetBlockHash_def ex_defs)
  have b: "3 = length (filter (missing (ex_env 2 2) ex_world) (gap ex_world 179))"
    by (simp add: m)
  have c: "MAX_BLOCKS_IN_TRANSIT_PER_PEER (ex_env 2 2) < 3"
    by (simp add: ex_env_def)
  have d: "MAX_BLOCKS_IN_TRANSIT_PER_PEER (ex_env 2 2) = 2"
    by (simp add: ex_env_def)
  show ?thesis
    using findMissingBlocks_window_trimmed [OF a b c] by (simp add: m d)
qed

text \<open>
  C3, as the spec words it, fails: the vector returned starts with the block nearest the
  tip. For the side branch \<open>0xB1\<close>, \<open>0xB2\<close>, \<open>0xB3\<close> on top of the active block \<open>0xA0\<close> the
  result for tip \<open>0xB3\<close> is \<open>0xB3\<close>, \<open>0xB2\<close>, \<open>0xB1\<close>; the block next to the active
  chain comes last.
\<close>

theorem findMissingBlocks_order_counterexample:
  "findMissingBlocks (ex_env 10 2) ex_world 179 = [179, 178, 177] \<and>
   pprev (blockIndex (chainstate ex_world) 177) = Some 160 \<and>
   Contains (chainstate ex_world) 160 \<and>
   findMissingBlocks (ex_env 10 2) ex_world 179 \<noteq> [177, 178, 179]"
  by (simp add: findMissingBlocks_def findMissingBlocks_loop.simps visit_def push_trim_def
        Contains_def WALK_LIMIT_def GetBlockHash_def ex_defs)

text \<open>
  C3, amended. For every tip, the vector that \<^verbatim>\<open>findMissingBlocks\<close> returns is in walk
  order: it is a subsequence of the ancestors of the tip listed from the tip (newest)
  towards the active chain (oldest). It is \<^verbatim>\<open>suggestDownload\<close> that goes through it back
  to front (line 139).
\<close>

theorem findMissingBlocks_newest_first:
  "subseq (findMissingBlocks env w tip) (ancestors (blockIndex (chainstate w)) tip WALK_LIMIT)"
proof -
  let ?anc = "ancestors (blockIndex (chainstate w)) tip WALK_LIMIT"
  let ?ms = "filter (missing env w) (gap w tip)"
  have g: "subseq (gap w tip) ?anc"
    unfolding gap_def by (rule prefix_imp_subseq) (rule takeWhile_is_prefix)
  have "subseq (drop (length ?ms - MAX_BLOCKS_IN_TRANSIT_PER_PEER env) ?ms) ?ms"
    by (rule suffix_imp_subseq) (rule suffix_drop)
  also have "subseq ?ms (gap w tip)"
    by simp
  also note g
  finally show ?thesis
    by (simp add: findMissingBlocks_char)
qed

theorem findMissingBlocks_newest_first_witness:
  "subseq (findMissingBlocks (ex_env 10 2) ex_world 179) [179, 178, 177, 160, 159]"
proof -
  have "ancestors (blockIndex (chainstate ex_world)) 179 WALK_LIMIT = [179, 178, 177, 160, 159]"
    by (simp add: WALK_LIMIT_def ancestors_unfold ex_defs)
  then show ?thesis
    using findMissingBlocks_newest_first [of "ex_env 10 2" ex_world 179] by simp
qed

section \<open>Properties of suggestDownload\<close>

lemma marked_append: "marked (xs @ ys) = marked xs @ marked ys"
  by (induction xs rule: marked.induct) simp_all

lemma evaluated_append: "evaluated (xs @ ys) = evaluated xs @ evaluated ys"
  by (induction xs rule: evaluated.induct) simp_all

lemma getdata_sent_append: "getdata_sent (xs @ ys) = getdata_sent xs @ getdata_sent ys"
  by (induction xs rule: getdata_sent.induct) simp_all

lemma decisions_append: "decisions (xs @ ys) = decisions xs @ decisions ys"
  by (induction xs rule: decisions.induct) simp_all

text \<open>The admitted hashes are an unbroken initial part of the hashes put to the run.\<close>

lemma admit_prefix_is_prefix: "prefix (admit_prefix env peer cs hs toGet st) hs"
  by (induction hs arbitrary: toGet st) simp_all

lemma admit_prefix_take:
  "admit_prefix env peer cs hs toGet st =
   take (length (admit_prefix env peer cs hs toGet st)) hs"
  using admit_prefix_is_prefix [of env peer cs hs toGet st]
  by (metis append_eq_conv_conj prefixE)

lemma admission_events_Nil: "admission_events peer [] [] = []"
  by (simp add: admission_events_def)

lemma admission_events_declined:
  "admission_events peer (h # hs) [] = [EvOnBlockAnnounced h False]"
  by (simp add: admission_events_def)

lemma admission_events_admitted:
  "admission_events peer (h # hs) (h # adm) =
   [EvOnBlockAnnounced h True, EvMarkAsInFlight peer h] @ admission_events peer hs adm"
  by (simp add: admission_events_def)

text \<open>
  The loop of \<^verbatim>\<open>suggestDownload\<close> over the blocks \<open>bs\<close> in the order it visits them does the
  admission run of the spec on their hashes: it adds exactly the events of that run,
  and leaves the chain state and the per-peer state alone. Under the admission contract
  the inventory grows by the admitted hashes.
\<close>

lemma suggestDownload_loop_run:
  "trace (snd (suggestDownload_loop env pfrom bs toGet w)) =
     trace w @
     admission_events (nodeid pfrom) (map (\<lambda>b. GetBlockHash (blockIndex (chainstate w) b)) bs)
       (admit_prefix env (nodeid pfrom) (chainstate w)
          (map (\<lambda>b. GetBlockHash (blockIndex (chainstate w) b)) bs) toGet (netstate w)) \<and>
   chainstate (snd (suggestDownload_loop env pfrom bs toGet w)) = chainstate w \<and>
   nodeStates (snd (suggestDownload_loop env pfrom bs toGet w)) = nodeStates w \<and>
   (appends_when_admitted env kind \<longrightarrow>
      fst (suggestDownload_loop env pfrom bs toGet w) =
        toGet @ map (CInv kind)
          (admit_prefix env (nodeid pfrom) (chainstate w)
             (map (\<lambda>b. GetBlockHash (blockIndex (chainstate w) b)) bs) toGet (netstate w)))"
proof (induction bs arbitrary: toGet w)
  case Nil
  show ?case by (simp add: admission_events_Nil)
next
  case (Cons b bs)
  let ?h = "GetBlockHash (blockIndex (chainstate w) b)"
  let ?hs = "map (\<lambda>b. GetBlockHash (blockIndex (chainstate w) b)) bs"
  obtain wanted toGet' n' where
    r: "onBlockAnnounced env (nodeid pfrom) ?h toGet (chainstate w) (netstate w) = (wanted, toGet', n')"
    by (cases "onBlockAnnounced env (nodeid pfrom) ?h toGet (chainstate w) (netstate w)")
  have contract: "appends_when_admitted env kind \<Longrightarrow> toGet' = (if wanted then toGet @ [CInv kind ?h] else toGet)"
  proof -
    assume "appends_when_admitted env kind"
    then have "snd (onBlockAnnounced env (nodeid pfrom) ?h toGet (chainstate w) (netstate w)) =
          (if fst (onBlockAnnounced env (nodeid pfrom) ?h toGet (chainstate w) (netstate w))
           then toGet @ [CInv kind ?h] else toGet,
           snd (snd (onBlockAnnounced env (nodeid pfrom) ?h toGet (chainstate w) (netstate w))))"
      unfolding appends_when_admitted_def by blast
    then show ?thesis using r by simp
  qed
  show ?case
  proof (cases wanted)
    case False
    have step: "suggestDownload_loop env pfrom (b # bs) toGet w =
                (toGet', w\<lparr>netstate := n', trace := trace w @ [EvOnBlockAnnounced ?h False]\<rparr>)"
      using r False by simp
    have adm: "admit_prefix env (nodeid pfrom) (chainstate w) (?h # ?hs) toGet (netstate w) = []"
      using r False by simp
    show ?thesis
      unfolding step list.map adm admission_events_declined
      using contract False by simp
  next
    case True
    let ?w2 = "w\<lparr>netstate := markAsInFlight env (nodeid pfrom) ?h n',
                 trace := trace w @ [EvOnBlockAnnounced ?h True, EvMarkAsInFlight (nodeid pfrom) ?h]\<rparr>"
    let ?adm' = "admit_prefix env (nodeid pfrom) (chainstate w) ?hs toGet'
                   (markAsInFlight env (nodeid pfrom) ?h n')"
    have step: "suggestDownload_loop env pfrom (b # bs) toGet w =
                suggestDownload_loop env pfrom bs toGet' ?w2"
      using r True by simp
    have adm: "admit_prefix env (nodeid pfrom) (chainstate w) (?h # ?hs) toGet (netstate w) =
               ?h # ?adm'"
      using r True by simp
    have ih: "trace (snd (suggestDownload_loop env pfrom bs toGet' ?w2)) =
                trace ?w2 @ admission_events (nodeid pfrom) ?hs ?adm'"
      "chainstate (snd (suggestDownload_loop env pfrom bs toGet' ?w2)) = chainstate w"
      "nodeStates (snd (suggestDownload_loop env pfrom bs toGet' ?w2)) = nodeStates w"
      "appends_when_admitted env kind \<longrightarrow>
         fst (suggestDownload_loop env pfrom bs toGet' ?w2) = toGet' @ map (CInv kind) ?adm'"
      using Cons.IH [of toGet' ?w2] by simp_all
    show ?thesis
      unfolding step list.map adm admission_events_admitted
      using ih contract True by simp
  qed
qed


text \<open>What the events of an admission run show: marks, decisions, hashes asked.\<close>

lemma admitted_events_projections:
  "marked (concat (map (\<lambda>h. [EvOnBlockAnnounced h True, EvMarkAsInFlight peer h]) adm)) = adm"
  "decisions (concat (map (\<lambda>h. [EvOnBlockAnnounced h True, EvMarkAsInFlight peer h]) adm)) =
     map (\<lambda>h. (h, True)) adm"
  "evaluated (concat (map (\<lambda>h. [EvOnBlockAnnounced h True, EvMarkAsInFlight peer h]) adm)) = adm"
  "getdata_sent (concat (map (\<lambda>h. [EvOnBlockAnnounced h True, EvMarkAsInFlight peer h]) adm)) = []"
  by (induction adm) simp_all

lemma marked_admission_events: "marked (admission_events peer hs adm) = adm"
  by (simp add: admission_events_def marked_append admitted_events_projections)

lemma decisions_admission_events:
  "decisions (admission_events peer hs adm) =
   map (\<lambda>h. (h, True)) adm @
   (if length adm < length hs then [(hs ! length adm, False)] else [])"
  by (simp add: admission_events_def decisions_append admitted_events_projections)

lemma evaluated_admission_events:
  "evaluated (admission_events peer hs adm) =
   adm @ (if length adm < length hs then [hs ! length adm] else [])"
  by (simp add: admission_events_def evaluated_append admitted_events_projections)

lemma getdata_sent_admission_events: "getdata_sent (admission_events peer hs adm) = []"
  by (simp add: admission_events_def getdata_sent_append admitted_events_projections)

text \<open>
  C7. For every window \<open>toFetch\<close> and every admission policy (any \<open>onBlockAnnounced\<close>, with
  any state of its own), let \<open>win\<close> be the window in nearest-known-chain-first order and
  \<open>adm\<close> the hashes the policy admits before it first declines. Then \<open>adm\<close> is an initial
  part of \<open>win\<close> (no hash is skipped), and the events of \<^verbatim>\<open>suggestDownload\<close> are exactly:
  for each hash of \<open>adm\<close> the decision yes and its in-flight mark, then, if \<open>win\<close> has a
  next hash, the decision no for that one hash, then the getdata message if the
  inventory is not empty. So the hashes marked are exactly \<open>adm\<close>, every decision before
  the last is yes, the hash after \<open>adm\<close> is the one declined, and no later hash is put
  to the policy. When the policy keeps the admission contract (an admitted hash is
  appended to the inventory, a declined one is not), the getdata message carries
  exactly \<open>adm\<close>, and none is sent when \<open>adm\<close> is empty.
\<close>

theorem suggestDownload_requests_prefix:
  assumes win: "win = chain_first w toFetch"
      and adm: "adm = admit_prefix env (nodeid pfrom) (chainstate w) win [] (netstate w)"
  shows "prefix adm win \<and>
     (\<exists>toGet.
        new_events w (suggestDownload env pfrom toFetch lastb w) =
          admission_events (nodeid pfrom) win adm @
          (if toGet = [] then [] else [EvPushMessage (nodeid pfrom) (GETDATA toGet)]) \<and>
        (appends_when_admitted env kind \<longrightarrow> toGet = map (CInv kind) adm)) \<and>
     marked (new_events w (suggestDownload env pfrom toFetch lastb w)) = adm \<and>
     decisions (new_events w (suggestDownload env pfrom toFetch lastb w)) =
       map (\<lambda>h. (h, True)) adm @
       (if length adm < length win then [(win ! length adm, False)] else []) \<and>
     evaluated (new_events w (suggestDownload env pfrom toFetch lastb w)) =
       take (Suc (length adm)) win \<and>
     (appends_when_admitted env kind \<longrightarrow>
        getdata_sent (new_events w (suggestDownload env pfrom toFetch lastb w)) =
          (if adm = [] then [] else [map (CInv kind) adm]))"
proof -
  let ?r = "suggestDownload_loop env pfrom (rev toFetch) [] w"
  let ?push = "if fst ?r = [] then [] else [EvPushMessage (nodeid pfrom) (GETDATA (fst ?r))]"
  have pre: "prefix adm win"
    unfolding adm by (rule admit_prefix_is_prefix)
  have tk: "adm = take (length adm) win"
    unfolding adm by (rule admit_prefix_take)
  have run: "trace (snd ?r) = trace w @ admission_events (nodeid pfrom) win adm"
    "appends_when_admitted env kind \<longrightarrow> fst ?r = map (CInv kind) adm"
    using suggestDownload_loop_run [of env pfrom "rev toFetch" "[]" w kind]
    by (simp_all add: win adm chain_first_def)
  have "trace (suggestDownload env pfrom toFetch lastb w) =
          trace w @ admission_events (nodeid pfrom) win adm @ ?push"
    using run(1) by (cases ?r) (simp add: suggestDownload_def PushMessage_def)
  then have ne: "new_events w (suggestDownload env pfrom toFetch lastb w) =
          admission_events (nodeid pfrom) win adm @ ?push"
    by (simp add: new_events_def)
  have ev: "adm @ (if length adm < length win then [win ! length adm] else []) =
            take (Suc (length adm)) win"
  proof (cases "length adm < length win")
    case True
    then show ?thesis
      using tk by (simp add: take_Suc_conv_app_nth)
  next
    case False
    then have "adm = win"
      using tk by simp
    then show ?thesis by simp
  qed
  have "marked (new_events w (suggestDownload env pfrom toFetch lastb w)) = adm"
    by (simp add: ne marked_append marked_admission_events)
  moreover have "decisions (new_events w (suggestDownload env pfrom toFetch lastb w)) =
       map (\<lambda>h. (h, True)) adm @
       (if length adm < length win then [(win ! length adm, False)] else [])"
    by (simp add: ne decisions_append decisions_admission_events)
  moreover have "evaluated (new_events w (suggestDownload env pfrom toFetch lastb w)) =
       take (Suc (length adm)) win"
    using ev by (simp add: ne evaluated_append evaluated_admission_events)
  moreover have "appends_when_admitted env kind \<longrightarrow>
        getdata_sent (new_events w (suggestDownload env pfrom toFetch lastb w)) =
          (if adm = [] then [] else [map (CInv kind) adm])"
    using run(2) by (simp add: ne getdata_sent_append getdata_sent_admission_events)
  moreover have "\<exists>toGet.
        new_events w (suggestDownload env pfrom toFetch lastb w) =
          admission_events (nodeid pfrom) win adm @
          (if toGet = [] then [] else [EvPushMessage (nodeid pfrom) (GETDATA toGet)]) \<and>
        (appends_when_admitted env kind \<longrightarrow> toGet = map (CInv kind) adm)"
    using ne run(2) by blast
  ultimately show ?thesis
    using pre by blast
qed

theorem suggestDownload_requests_prefix_witness:
  "appends_when_admitted (ex_env 10 2) 2 \<and>
   chain_first ex_world [179, 178, 177] = [0xB1, 0xB2, 0xB3] \<and>
   admit_prefix (ex_env 10 2) 7 ex_chain [0xB1, 0xB2, 0xB3] [] [] = [0xB1, 0xB2] \<and>
   marked (new_events ex_world (suggestDownload (ex_env 10 2) ex_peer [179, 178, 177] 179 ex_world)) =
     [0xB1, 0xB2] \<and>
   decisions (new_events ex_world (suggestDownload (ex_env 10 2) ex_peer [179, 178, 177] 179 ex_world)) =
     [(0xB1, True), (0xB2, True), (0xB3, False)] \<and>
   getdata_sent (new_events ex_world (suggestDownload (ex_env 10 2) ex_peer [179, 178, 177] 179 ex_world)) =
     [[CInv 2 0xB1, CInv 2 0xB2]] \<and>
   admit_prefix (ex_env 10 0) 7 ex_chain [0xB1, 0xB2, 0xB3] [] [] = [] \<and>
   marked (new_events ex_world (suggestDownload (ex_env 10 0) ex_peer [179, 178, 177] 179 ex_world)) =
     [] \<and>
   decisions (new_events ex_world (suggestDownload (ex_env 10 0) ex_peer [179, 178, 177] 179 ex_world)) =
     [(0xB1, False)]"
proof -
  have a: "appends_when_admitted (ex_env 10 2) 2"
    by (simp add: appends_when_admitted_def ex_env_def)
  have b: "chain_first ex_world [179, 178, 177] = [0xB1, 0xB2, 0xB3]"
    by (simp add: chain_first_def GetBlockHash_def ex_defs)
  have id: "nodeid ex_peer = 7" "chainstate ex_world = ex_chain" "netstate ex_world = []"
    by (simp_all add: ex_peer_def ex_world_def)
  have c: "admit_prefix (ex_env 10 2) 7 ex_chain [0xB1, 0xB2, 0xB3] [] [] = [0xB1, 0xB2]"
    by (simp add: ex_env_def)
  have w: "[0xB1, 0xB2, 0xB3] = chain_first ex_world [179, 178, 177]"
    using b by simp
  have d: "[0xB1, 0xB2] =
      admit_prefix (ex_env 10 2) (nodeid ex_peer) (chainstate ex_world) [0xB1, 0xB2, 0xB3] []
        (netstate ex_world)"
    using c by (simp only: id)
  let ?new = "new_events ex_world (suggestDownload (ex_env 10 2) ex_peer [179, 178, 177] 179 ex_world)"
  from suggestDownload_requests_prefix [OF w d, of 179 2] have
    t: "marked ?new = [0xB1, 0xB2]"
       "decisions ?new =
          map (\<lambda>h. (h, True)) [0xB1, 0xB2] @
          (if length [0xB1, 0xB2 :: uint256] < length [0xB1, 0xB2, 0xB3 :: uint256]
           then [([0xB1, 0xB2, 0xB3] ! length [0xB1, 0xB2 :: uint256], False)] else [])"
       "appends_when_admitted (ex_env 10 2) 2 \<longrightarrow>
          getdata_sent ?new =
            (if [0xB1, 0xB2 :: uint256] = [] then [] else [map (CInv 2) [0xB1, 0xB2]])"
    by blast+
  from t(2) have dec: "decisions ?new = [(0xB1, True), (0xB2, True), (0xB3, False)]"
    by simp
  from t(3) a have get: "getdata_sent ?new = [[CInv 2 0xB1, CInv 2 0xB2]]"
    by simp
  let ?none = "new_events ex_world (suggestDownload (ex_env 10 0) ex_peer [179, 178, 177] 179 ex_world)"
  have c0: "admit_prefix (ex_env 10 0) 7 ex_chain [0xB1, 0xB2, 0xB3] [] [] = []"
    by (simp add: ex_env_def)
  have d0: "[] =
      admit_prefix (ex_env 10 0) (nodeid ex_peer) (chainstate ex_world) [0xB1, 0xB2, 0xB3] []
        (netstate ex_world)"
    using c0 by (simp only: id)
  from suggestDownload_requests_prefix [OF w d0, of 179 2] have
    t0: "marked ?none = []"
        "decisions ?none =
          map (\<lambda>h. (h, True)) [] @
          (if length ([] :: uint256 list) < length [0xB1, 0xB2, 0xB3 :: uint256]
           then [([0xB1, 0xB2, 0xB3] ! length ([] :: uint256 list), False)] else [])"
    by blast+
  from t0(2) have dec0: "decisions ?none = [(0xB1, False)]"
    by simp
  from a b c t(1) dec get c0 t0(1) dec0 show ?thesis
    by blast
qed

text \<open>
  The walk and the suggestion read the chain state and the in-flight state only: two
  worlds that agree on them give the same window, the same events and the same
  in-flight state afterwards.
\<close>

lemma findMissingBlocks_same:
  assumes "chainstate w = chainstate w'" and "netstate w = netstate w'"
  shows "findMissingBlocks env w tip = findMissingBlocks env w' tip"
proof -
  have "gap w tip = gap w' tip"
    using assms by (simp add: gap_def)
  moreover have "missing env w = missing env w'"
    using assms by (simp add: missing_def fun_eq_iff)
  ultimately show ?thesis
    using assms by (simp add: findMissingBlocks_char)
qed

lemma suggestDownload_loop_same:
  assumes "chainstate w = chainstate w'" and "netstate w = netstate w'"
  shows "fst (suggestDownload_loop env pfrom bs toGet w) =
           fst (suggestDownload_loop env pfrom bs toGet w') \<and>
         netstate (snd (suggestDownload_loop env pfrom bs toGet w)) =
           netstate (snd (suggestDownload_loop env pfrom bs toGet w'))"
  using assms
proof (induction bs arbitrary: toGet w w')
  case Nil
  then show ?case by simp
next
  case (Cons b bs)
  let ?h = "GetBlockHash (blockIndex (chainstate w) b)"
  obtain wanted toGet' n' where
    r: "onBlockAnnounced env (nodeid pfrom) ?h toGet (chainstate w) (netstate w) = (wanted, toGet', n')"
    by (cases "onBlockAnnounced env (nodeid pfrom) ?h toGet (chainstate w) (netstate w)")
  then have r': "onBlockAnnounced env (nodeid pfrom) (GetBlockHash (blockIndex (chainstate w') b)) toGet
                   (chainstate w') (netstate w') = (wanted, toGet', n')"
    using Cons.prems by simp
  show ?case
  proof (cases wanted)
    case False
    then show ?thesis using r r' by simp
  next
    case True
    let ?w2 = "w\<lparr>netstate := markAsInFlight env (nodeid pfrom) ?h n',
                 trace := trace w @ [EvOnBlockAnnounced ?h True, EvMarkAsInFlight (nodeid pfrom) ?h]\<rparr>"
    let ?w2' = "w'\<lparr>netstate := markAsInFlight env (nodeid pfrom) ?h n',
                 trace := trace w' @ [EvOnBlockAnnounced ?h True, EvMarkAsInFlight (nodeid pfrom) ?h]\<rparr>"
    have step: "suggestDownload_loop env pfrom (b # bs) toGet w =
                suggestDownload_loop env pfrom bs toGet' ?w2"
      using r True by simp
    have step': "suggestDownload_loop env pfrom (b # bs) toGet w' =
                suggestDownload_loop env pfrom bs toGet' ?w2'"
      using r' True Cons.prems by simp
    have "chainstate ?w2 = chainstate ?w2'" "netstate ?w2 = netstate ?w2'"
      using Cons.prems by simp_all
    from Cons.IH [OF this, of toGet'] show ?thesis
      unfolding step step' .
  qed
qed

lemma suggestDownload_same:
  assumes cs: "chainstate w = chainstate w'" and ns: "netstate w = netstate w'"
  shows "trace (suggestDownload env pfrom toFetch lastb w) =
           trace w @ new_events w' (suggestDownload env pfrom toFetch lastb w')"
    and "netstate (suggestDownload env pfrom toFetch lastb w) =
           netstate (suggestDownload env pfrom toFetch lastb w')"
proof -
  let ?r = "suggestDownload_loop env pfrom (rev toFetch) [] w"
  let ?r' = "suggestDownload_loop env pfrom (rev toFetch) [] w'"
  let ?ae = "admission_events (nodeid pfrom) (chain_first w toFetch)
               (admit_prefix env (nodeid pfrom) (chainstate w) (chain_first w toFetch) [] (netstate w))"
  let ?push = "if fst ?r = [] then [] else [EvPushMessage (nodeid pfrom) (GETDATA (fst ?r))]"
  note same = suggestDownload_loop_same [OF cs ns, of env pfrom "rev toFetch" "[]"]
  have t: "trace (snd ?r) = trace w @ ?ae"
    using suggestDownload_loop_run [of env pfrom "rev toFetch" "[]" w 0]
    by (simp add: chain_first_def)
  have t': "trace (snd ?r') = trace w' @ ?ae"
    using suggestDownload_loop_run [of env pfrom "rev toFetch" "[]" w' 0] cs ns
    by (simp add: chain_first_def)
  have full: "trace (suggestDownload env pfrom toFetch lastb w) = trace w @ ?ae @ ?push"
    using t by (cases ?r) (simp add: suggestDownload_def PushMessage_def)
  have "trace (suggestDownload env pfrom toFetch lastb w') = trace w' @ ?ae @ ?push"
    using t' same by (cases ?r') (simp add: suggestDownload_def PushMessage_def)
  then have "new_events w' (suggestDownload env pfrom toFetch lastb w') = ?ae @ ?push"
    by (simp add: new_events_def)
  with full show "trace (suggestDownload env pfrom toFetch lastb w) =
           trace w @ new_events w' (suggestDownload env pfrom toFetch lastb w')"
    by simp
  have "netstate (suggestDownload env pfrom toFetch lastb w) = netstate (snd ?r)"
    by (cases ?r) (simp add: suggestDownload_def PushMessage_def)
  moreover have "netstate (suggestDownload env pfrom toFetch lastb w') = netstate (snd ?r')"
    by (cases ?r') (simp add: suggestDownload_def PushMessage_def)
  ultimately show "netstate (suggestDownload env pfrom toFetch lastb w) =
           netstate (suggestDownload env pfrom toFetch lastb w')"
    using same by simp
qed

section \<open>Properties of operator()\<close>

text \<open>\<^verbatim>\<open>acceptHeaders\<close> adds nothing but misbehaviour reports to the trace.\<close>

lemma acceptHeaders_loop_reports:
  "\<exists>evs. trace (snd (acceptHeaders_loop env pfrom hs p w)) = trace w @ evs \<and>
         (\<forall>e \<in> set evs. is_report e)"
proof (induction hs arbitrary: p w)
  case Nil
  show ?case by simp
next
  case (Cons h hs)
  obtain accepted st p' cs' where
    a: "AcceptBlockHeader env h p (chainstate w) = (accepted, st, p', cs')"
    by (cases "AcceptBlockHeader env h p (chainstate w)")
  from Cons.IH [of p' "w\<lparr>chainstate := cs'\<rparr>"] obtain evs where
    ih: "trace (snd (acceptHeaders_loop env pfrom hs p' (w\<lparr>chainstate := cs'\<rparr>))) = trace w @ evs"
        "\<forall>e \<in> set evs. is_report e"
    by auto
  show ?case
    using a ih by (auto simp: Misbehaving_def split: option.splits)
qed

text \<open>
  \<^verbatim>\<open>suggestDownload\<close> adds nothing but admission decisions, in-flight marks and a getdata
  message.
\<close>

lemma suggestDownload_loop_fetch:
  "\<exists>evs. trace (snd (suggestDownload_loop env pfrom bs toGet w)) = trace w @ evs \<and>
         (\<forall>e \<in> set evs. is_fetch e)"
proof (induction bs arbitrary: toGet w)
  case Nil
  show ?case by simp
next
  case (Cons b bs)
  let ?h = "GetBlockHash (blockIndex (chainstate w) b)"
  obtain wanted toGet' n' where
    r: "onBlockAnnounced env (nodeid pfrom) ?h toGet (chainstate w) (netstate w) = (wanted, toGet', n')"
    by (cases "onBlockAnnounced env (nodeid pfrom) ?h toGet (chainstate w) (netstate w)")
  let ?w2 = "w\<lparr>netstate := markAsInFlight env (nodeid pfrom) ?h n',
               trace := trace w @ [EvOnBlockAnnounced ?h True, EvMarkAsInFlight (nodeid pfrom) ?h]\<rparr>"
  from Cons.IH [of toGet' ?w2] obtain evs where
    ih: "trace (snd (suggestDownload_loop env pfrom bs toGet' ?w2)) = trace ?w2 @ evs"
        "\<forall>e \<in> set evs. is_fetch e"
    by auto
  show ?case
  proof (cases wanted)
    case False
    then show ?thesis using r by simp
  next
    case True
    have step: "suggestDownload_loop env pfrom (b # bs) toGet w =
                suggestDownload_loop env pfrom bs toGet' ?w2"
      using r True by simp
    show ?thesis
      unfolding step
      apply (rule exI [of _ "[EvOnBlockAnnounced ?h True, EvMarkAsInFlight (nodeid pfrom) ?h] @ evs"])
      using ih by simp
  qed
qed

lemma suggestDownload_fetch:
  "\<exists>evs. trace (suggestDownload env pfrom toFetch lastb w) = trace w @ evs \<and>
         (\<forall>e \<in> set evs. is_fetch e)"
proof -
  obtain toGet w' where r: "suggestDownload_loop env pfrom (rev toFetch) [] w = (toGet, w')"
    by (cases "suggestDownload_loop env pfrom (rev toFetch) [] w")
  from suggestDownload_loop_fetch [of env pfrom "rev toFetch" "[]" w] r obtain evs where
    l: "trace w' = trace w @ evs" "\<forall>e \<in> set evs. is_fetch e"
    by auto
  show ?thesis
  proof (cases "toGet = []")
    case True
    then show ?thesis using r l by (simp add: suggestDownload_def)
  next
    case False
    show ?thesis
      apply (rule exI [of _ "evs @ [EvPushMessage (nodeid pfrom) (GETDATA toGet)]"])
      using False r l by (simp add: suggestDownload_def PushMessage_def)
  qed
qed


text \<open>
  The entry point after a batch that ended with a last accepted block: \<open>w4\<close> is the
  world after the counter reset, the availability update and the optional getheaders
  push; the chain state and the in-flight state are those after \<^verbatim>\<open>acceptHeaders\<close>.
\<close>

lemma operator_call_accepted:
  assumes acc: "acceptHeaders env pfrom headers w = (Inr (Some lastb), w1)"
  shows "\<exists>w4 pushed.
     chainstate w4 = chainstate w1 \<and> netstate w4 = netstate w \<and>
     trace w4 = trace w @ pushed \<and>
     pushed = (if peerSentMax
               then [EvPushMessage (nodeid pfrom) (GETHEADERS (GetLocator env (chainstate w1) (Some lastb)) 0)]
               else []) \<and>
     operator_call env pfrom headers peerSentMax maybeAnnouncement w =
       (if \<not> maybeAnnouncement then (Inr (Some lastb), checkBlockIndex w4)
        else (case hasEqualOrMoreWork env (chainstate w1) lastb of
                Inl e \<Rightarrow> (Inl e, w4)
              | Inr False \<Rightarrow> (Inr (Some lastb), checkBlockIndex w4)
              | Inr True \<Rightarrow>
                  (Inr (Some lastb),
                   checkBlockIndex
                     (suggestDownload env pfrom (findMissingBlocks env w4 lastb) lastb
                        (w4\<lparr>trace := trace w4 @
                             [EvFindMissingBlocks lastb,
                              EvSuggestDownload (findMissingBlocks env w4 lastb) lastb]\<rparr>)))))"
proof -
  from acc have run: "acceptHeaders_loop env pfrom headers None w = (Inr (Some lastb), w1)"
    by (simp add: acceptHeaders_def)
  note same = acceptHeaders_loop_Inr [OF run]
  let ?w2 = "w1\<lparr>nodeStates := (nodeStates w1)
                (nodeid pfrom := (nodeStates w1 (nodeid pfrom))\<lparr>unconnectingHeaders := 0\<rparr>)\<rparr>"
  let ?w3 = "UpdateBlockAvailability (nodeid pfrom)
               (GetBlockHash (blockIndex (chainstate ?w2) lastb)) ?w2"
  let ?w4 = "if peerSentMax
             then PushMessage (nodeid pfrom)
                    (GETHEADERS (GetLocator env (chainstate ?w3) (Some lastb)) 0) ?w3
             else ?w3"
  show ?thesis
    apply (rule exI [of _ ?w4])
    apply (rule exI [of _ "if peerSentMax
               then [EvPushMessage (nodeid pfrom) (GETHEADERS (GetLocator env (chainstate w1) (Some lastb)) 0)]
               else []"])
    using same
    by (simp add: operator_call_def acc Let_def UpdateBlockAvailability_def PushMessage_def
          split: sum.splits bool.splits)
qed


text \<open>
  C8. The entry point is called with \<^verbatim>\<open>maybeAnnouncement\<close> true, the batch ends with a
  last accepted block \<open>lastb\<close> in the world \<open>w1\<close>, and the active chain has a tip. The gate is
  \<^verbatim>\<open>lastb->IsValid(BLOCK_VALID_TREE)\<close> together with tip work at most the work of \<open>lastb\<close>.
  \<^item> With the gate open the call does the walk and the suggestion: after the optional
    getheaders push, its events are those of \<^verbatim>\<open>suggestDownload\<close> run on the window
    \<^verbatim>\<open>findMissingBlocks(lastb)\<close>, followed by the invariant check, and the in-flight state
    is the one that this \<^verbatim>\<open>suggestDownload\<close> leaves.
  \<^item> With the gate closed (validity flag unset, or less work) it does neither: its events
    are the optional getheaders push and the invariant check, and the in-flight state
    is untouched. In particular so with strictly less work than the tip.
  \<^item> The entries that record the two calls are in the trace if and only if the gate is
    open.
\<close>

theorem operator_call_work_gate:
  assumes acc: "acceptHeaders env pfrom headers w = (Inr (Some lastb), w1)"
      and tip: "Tip (chainstate w1) = Some tip"
      and walk: "toFetch = findMissingBlocks env w1 lastb"
      and pushed: "pushed =
        (if peerSentMax
         then [EvPushMessage (nodeid pfrom) (GETHEADERS (GetLocator env (chainstate w1) (Some lastb)) 0)]
         else [])"
      and res: "r = operator_call env pfrom headers peerSentMax True w"
  shows
    "(IsValid_TREE env (blockIndex (chainstate w1) lastb) \<and>
      nChainWork (blockIndex (chainstate w1) tip) \<le> nChainWork (blockIndex (chainstate w1) lastb) \<longrightarrow>
        fst r = Inr (Some lastb) \<and>
        new_events w (snd r) =
          pushed @ [EvFindMissingBlocks lastb, EvSuggestDownload toFetch lastb] @
          new_events w1 (suggestDownload env pfrom toFetch lastb w1) @ [EvCheckBlockIndex] \<and>
        netstate (snd r) = netstate (suggestDownload env pfrom toFetch lastb w1)) \<and>
     (\<not> (IsValid_TREE env (blockIndex (chainstate w1) lastb) \<and>
         nChainWork (blockIndex (chainstate w1) tip) \<le> nChainWork (blockIndex (chainstate w1) lastb)) \<longrightarrow>
        fst r = Inr (Some lastb) \<and>
        new_events w (snd r) = pushed @ [EvCheckBlockIndex] \<and>
        netstate (snd r) = netstate w1) \<and>
     (nChainWork (blockIndex (chainstate w1) lastb) < nChainWork (blockIndex (chainstate w1) tip) \<longrightarrow>
        new_events w (snd r) = pushed @ [EvCheckBlockIndex] \<and>
        netstate (snd r) = netstate w1) \<and>
     (EvFindMissingBlocks lastb \<in> set (new_events w (snd r)) \<longleftrightarrow>
        IsValid_TREE env (blockIndex (chainstate w1) lastb) \<and>
        nChainWork (blockIndex (chainstate w1) tip) \<le> nChainWork (blockIndex (chainstate w1) lastb)) \<and>
     ((\<exists>tf. EvSuggestDownload tf lastb \<in> set (new_events w (snd r))) \<longleftrightarrow>
        IsValid_TREE env (blockIndex (chainstate w1) lastb) \<and>
        nChainWork (blockIndex (chainstate w1) tip) \<le> nChainWork (blockIndex (chainstate w1) lastb))"
proof -
  let ?G = "IsValid_TREE env (blockIndex (chainstate w1) lastb) \<and>
        nChainWork (blockIndex (chainstate w1) tip) \<le> nChainWork (blockIndex (chainstate w1) lastb)"
  from acc have run: "acceptHeaders_loop env pfrom headers None w = (Inr (Some lastb), w1)"
    by (simp add: acceptHeaders_def)
  note same = acceptHeaders_loop_Inr [OF run]
  have gate: "hasEqualOrMoreWork env (chainstate w1) lastb = Inr ?G"
    by (simp add: hasEqualOrMoreWork_def tip)
  from operator_call_accepted [OF acc, of peerSentMax True] obtain w4 where
    w4: "chainstate w4 = chainstate w1" "netstate w4 = netstate w" "trace w4 = trace w @ pushed"
        "r = (case hasEqualOrMoreWork env (chainstate w1) lastb of
                Inl e \<Rightarrow> (Inl e, w4)
              | Inr False \<Rightarrow> (Inr (Some lastb), checkBlockIndex w4)
              | Inr True \<Rightarrow>
                  (Inr (Some lastb),
                   checkBlockIndex
                     (suggestDownload env pfrom (findMissingBlocks env w4 lastb) lastb
                        (w4\<lparr>trace := trace w4 @
                             [EvFindMissingBlocks lastb,
                              EvSuggestDownload (findMissingBlocks env w4 lastb) lastb]\<rparr>))))"
    unfolding pushed res by auto
  have ns: "netstate w4 = netstate w1"
    using w4(2) same by simp
  have tf: "findMissingBlocks env w4 lastb = toFetch"
    unfolding walk by (rule findMissingBlocks_same [OF w4(1) ns])
  let ?w5 = "w4\<lparr>trace := trace w4 @ [EvFindMissingBlocks lastb, EvSuggestDownload toFetch lastb]\<rparr>"
  have w5: "chainstate ?w5 = chainstate w1" "netstate ?w5 = netstate w1"
    using w4(1) ns by simp_all
  note sd = suggestDownload_same [OF w5, of env pfrom toFetch lastb]
  have closed: "\<not> ?G \<Longrightarrow> fst r = Inr (Some lastb) \<and>
        new_events w (snd r) = pushed @ [EvCheckBlockIndex] \<and> netstate (snd r) = netstate w1"
  proof -
    assume "\<not> ?G"
    with gate have "hasEqualOrMoreWork env (chainstate w1) lastb = Inr False"
      by simp
    with w4(4) have "r = (Inr (Some lastb), checkBlockIndex w4)"
      by simp
    then show ?thesis
      using ns by (simp add: new_events_def checkBlockIndex_def w4(3))
  qed
  have opened: "?G \<Longrightarrow> fst r = Inr (Some lastb) \<and>
        new_events w (snd r) =
          pushed @ [EvFindMissingBlocks lastb, EvSuggestDownload toFetch lastb] @
          new_events w1 (suggestDownload env pfrom toFetch lastb w1) @ [EvCheckBlockIndex] \<and>
        netstate (snd r) = netstate (suggestDownload env pfrom toFetch lastb w1)"
  proof -
    assume "?G"
    with gate have "hasEqualOrMoreWork env (chainstate w1) lastb = Inr True"
      by simp
    with w4(4) have r: "r = (Inr (Some lastb), checkBlockIndex (suggestDownload env pfrom toFetch lastb ?w5))"
      by (simp add: tf)
    then have "trace (snd r) = trace (suggestDownload env pfrom toFetch lastb ?w5) @ [EvCheckBlockIndex]"
      by (simp add: checkBlockIndex_def)
    also have "\<dots> = (trace ?w5 @ new_events w1 (suggestDownload env pfrom toFetch lastb w1)) @
                      [EvCheckBlockIndex]"
      by (simp only: sd(1))
    also have "trace ?w5 = (trace w @ pushed) @ [EvFindMissingBlocks lastb, EvSuggestDownload toFetch lastb]"
      by (simp add: w4(3))
    finally have "new_events w (snd r) =
          pushed @ [EvFindMissingBlocks lastb, EvSuggestDownload toFetch lastb] @
          new_events w1 (suggestDownload env pfrom toFetch lastb w1) @ [EvCheckBlockIndex]"
      by (simp add: new_events_def)
    moreover have "netstate (snd r) = netstate (suggestDownload env pfrom toFetch lastb w1)"
      using r sd(2) by (simp add: checkBlockIndex_def)
    moreover have "fst r = Inr (Some lastb)"
      using r by simp
    ultimately show ?thesis by simp
  qed
  have less: "nChainWork (blockIndex (chainstate w1) lastb) < nChainWork (blockIndex (chainstate w1) tip)
      \<Longrightarrow> \<not> ?G"
    by (auto dest: leD)
  have no_markers: "EvFindMissingBlocks lastb \<notin> set (pushed @ [EvCheckBlockIndex])"
    "\<forall>tf. EvSuggestDownload tf lastb \<notin> set (pushed @ [EvCheckBlockIndex])"
    by (simp_all add: pushed)
  have m1: "EvFindMissingBlocks lastb \<in> set (new_events w (snd r)) \<longleftrightarrow> ?G"
  proof (cases ?G)
    case True
    from opened [OF True] have "EvFindMissingBlocks lastb \<in> set (new_events w (snd r))"
      by simp
    with True show ?thesis by simp
  next
    case False
    from closed [OF False] have "new_events w (snd r) = pushed @ [EvCheckBlockIndex]"
      by simp
    with no_markers(1) False show ?thesis by simp
  qed
  have m2: "(\<exists>tf. EvSuggestDownload tf lastb \<in> set (new_events w (snd r))) \<longleftrightarrow> ?G"
  proof (cases ?G)
    case True
    from opened [OF True] have "EvSuggestDownload toFetch lastb \<in> set (new_events w (snd r))"
      by simp
    with True show ?thesis by blast
  next
    case False
    from closed [OF False] have "new_events w (snd r) = pushed @ [EvCheckBlockIndex]"
      by simp
    with no_markers(2) False show ?thesis by simp
  qed
  from opened closed less m1 m2 show ?thesis
    by blast
qed


theorem operator_call_work_gate_witness:
  "fst (operator_call (ex_env 10 2) ex_peer [ex_header 0xB3 0xB2] False True ex_world) = Inr (Some 179) \<and>
   new_events ex_world
     (snd (operator_call (ex_env 10 2) ex_peer [ex_header 0xB3 0xB2] False True ex_world)) =
     [EvFindMissingBlocks 179, EvSuggestDownload [179, 178, 177] 179,
      EvOnBlockAnnounced 0xB1 True, EvMarkAsInFlight 7 0xB1,
      EvOnBlockAnnounced 0xB2 True, EvMarkAsInFlight 7 0xB2,
      EvOnBlockAnnounced 0xB3 False,
      EvPushMessage 7 (GETDATA [CInv 2 0xB1, CInv 2 0xB2]),
      EvCheckBlockIndex] \<and>
   netstate (snd (operator_call (ex_env 10 2) ex_peer [ex_header 0xB3 0xB2] False True ex_world)) =
     [0xB1, 0xB2] \<and>
   nChainWork (blockIndex (chainstate ex_world) 159) < nChainWork (blockIndex (chainstate ex_world) 160) \<and>
   new_events ex_world
     (snd (operator_call (ex_env 10 2) ex_peer [ex_header 0x9F 0] False True ex_world)) =
     [EvCheckBlockIndex] \<and>
   netstate (snd (operator_call (ex_env 10 2) ex_peer [ex_header 0x9F 0] False True ex_world)) = []"
proof -
  have a: "acceptHeaders (ex_env 10 2) ex_peer [ex_header 0xB3 0xB2] ex_world =
             (Inr (Some 179), ex_world)"
    by (simp add: acceptHeaders_def IsInvalid_def ex_defs)
  have a': "acceptHeaders (ex_env 10 2) ex_peer [ex_header 0x9F 0] ex_world =
             (Inr (Some 159), ex_world)"
    by (simp add: acceptHeaders_def IsInvalid_def ex_defs)
  have b: "Tip (chainstate ex_world) = Some 160"
    by (simp add: Tip_def ex_defs)
  have c: "IsValid_TREE (ex_env 10 2) (blockIndex (chainstate ex_world) 179) \<and>
           nChainWork (blockIndex (chainstate ex_world) 160) \<le>
           nChainWork (blockIndex (chainstate ex_world) 179)"
    by (simp add: ex_defs)
  have e: "nChainWork (blockIndex (chainstate ex_world) 159) <
           nChainWork (blockIndex (chainstate ex_world) 160)"
    by (simp add: ex_defs)
  have walk: "[179, 178, 177] = findMissingBlocks (ex_env 10 2) ex_world 179"
    by (simp add: findMissingBlocks_def findMissingBlocks_loop.simps visit_def push_trim_def
          Contains_def WALK_LIMIT_def GetBlockHash_def ex_defs)
  have pushed: "[] = (if False
         then [EvPushMessage (nodeid ex_peer)
                 (GETHEADERS (GetLocator (ex_env 10 2) (chainstate ex_world) (Some 179)) 0)]
         else [])"
    by simp
  have pushed': "[] = (if False
         then [EvPushMessage (nodeid ex_peer)
                 (GETHEADERS (GetLocator (ex_env 10 2) (chainstate ex_world) (Some 159)) 0)]
         else [])"
    by simp
  have sd: "new_events ex_world (suggestDownload (ex_env 10 2) ex_peer [179, 178, 177] 179 ex_world) =
      [EvOnBlockAnnounced 0xB1 True, EvMarkAsInFlight 7 0xB1,
       EvOnBlockAnnounced 0xB2 True, EvMarkAsInFlight 7 0xB2,
       EvOnBlockAnnounced 0xB3 False,
       EvPushMessage 7 (GETDATA [CInv 2 0xB1, CInv 2 0xB2])]"
    "netstate (suggestDownload (ex_env 10 2) ex_peer [179, 178, 177] 179 ex_world) = [0xB1, 0xB2]"
    by (simp_all add: suggestDownload_def new_events_def PushMessage_def GetBlockHash_def ex_defs)
  have nil: "netstate ex_world = []"
    by (simp add: ex_world_def)
  from operator_call_work_gate [OF a b walk pushed refl] c have
    "fst (operator_call (ex_env 10 2) ex_peer [ex_header 0xB3 0xB2] False True ex_world) = Inr (Some 179)"
    "new_events ex_world
       (snd (operator_call (ex_env 10 2) ex_peer [ex_header 0xB3 0xB2] False True ex_world)) =
       [] @ [EvFindMissingBlocks 179, EvSuggestDownload [179, 178, 177] 179] @
       new_events ex_world (suggestDownload (ex_env 10 2) ex_peer [179, 178, 177] 179 ex_world) @
       [EvCheckBlockIndex]"
    "netstate (snd (operator_call (ex_env 10 2) ex_peer [ex_header 0xB3 0xB2] False True ex_world)) =
       netstate (suggestDownload (ex_env 10 2) ex_peer [179, 178, 177] 179 ex_world)"
    by blast+
  then have opened:
    "fst (operator_call (ex_env 10 2) ex_peer [ex_header 0xB3 0xB2] False True ex_world) = Inr (Some 179)"
    "new_events ex_world
       (snd (operator_call (ex_env 10 2) ex_peer [ex_header 0xB3 0xB2] False True ex_world)) =
     [EvFindMissingBlocks 179, EvSuggestDownload [179, 178, 177] 179,
      EvOnBlockAnnounced 0xB1 True, EvMarkAsInFlight 7 0xB1,
      EvOnBlockAnnounced 0xB2 True, EvMarkAsInFlight 7 0xB2,
      EvOnBlockAnnounced 0xB3 False,
      EvPushMessage 7 (GETDATA [CInv 2 0xB1, CInv 2 0xB2]),
      EvCheckBlockIndex]"
    "netstate (snd (operator_call (ex_env 10 2) ex_peer [ex_header 0xB3 0xB2] False True ex_world)) =
       [0xB1, 0xB2]"
    by (simp_all only: sd) simp_all
  from operator_call_work_gate [OF a' b refl pushed' refl] e have
    "new_events ex_world
       (snd (operator_call (ex_env 10 2) ex_peer [ex_header 0x9F 0] False True ex_world)) =
       [] @ [EvCheckBlockIndex]"
    "netstate (snd (operator_call (ex_env 10 2) ex_peer [ex_header 0x9F 0] False True ex_world)) =
       netstate ex_world"
    by blast+
  then have closed:
    "new_events ex_world
       (snd (operator_call (ex_env 10 2) ex_peer [ex_header 0x9F 0] False True ex_world)) =
       [EvCheckBlockIndex]"
    "netstate (snd (operator_call (ex_env 10 2) ex_peer [ex_header 0x9F 0] False True ex_world)) = []"
    by (simp_all add: nil)
  from opened closed e show ?thesis
    by blast
qed

text \<open>
  C6, as the spec words it, fails: the throw of \<^verbatim>\<open>acceptHeaders\<close> leaves \<^verbatim>\<open>operator()\<close> at
  line 41, and nothing catches it before line 66. Here a batch with an invalid header
  ends with the exception, and the only event of the call is the misbehaviour report.
\<close>

theorem operator_call_no_check_counterexample:
  "fst (operator_call (ex_env 10 2) ex_peer [ex_header 0xD1 0xF0] False False ex_world) =
     Inl (BlockHeaderError ''invalid header received'') \<and>
   trace (snd (operator_call (ex_env 10 2) ex_peer [ex_header 0xD1 0xF0] False False ex_world)) =
     [EvMisbehaving 7 100 ''invalid header''] \<and>
   EvCheckBlockIndex \<notin>
     set (trace (snd (operator_call (ex_env 10 2) ex_peer [ex_header 0xD1 0xF0] False False ex_world)))"
  by (simp add: operator_call_def acceptHeaders_def Misbehaving_def IsInvalid_def ex_defs)

text \<open>
  C6, amended. Every call of the entry point that returns (with a last accepted block or
  none) calls \<^verbatim>\<open>checkBlockIndex\<close> exactly once, as the last thing it does. A call that
  ends with an exception does not call it.
\<close>

theorem operator_call_checkBlockIndex:
  "(\<forall>p. fst (operator_call env pfrom headers peerSentMax maybeAnnouncement w) = Inr p \<longrightarrow>
      (\<exists>evs. new_events w (snd (operator_call env pfrom headers peerSentMax maybeAnnouncement w)) =
               evs @ [EvCheckBlockIndex] \<and>
             EvCheckBlockIndex \<notin> set evs)) \<and>
   (\<forall>e. fst (operator_call env pfrom headers peerSentMax maybeAnnouncement w) = Inl e \<longrightarrow>
      EvCheckBlockIndex \<notin>
        set (new_events w (snd (operator_call env pfrom headers peerSentMax maybeAnnouncement w))))"
proof -
  let ?r = "operator_call env pfrom headers peerSentMax maybeAnnouncement w"
  obtain res w1 where acc: "acceptHeaders env pfrom headers w = (res, w1)"
    by (cases "acceptHeaders env pfrom headers w")
  show ?thesis
  proof (cases res)
    case (Inl err)
    from acceptHeaders_loop_reports [of env pfrom headers None w] acc obtain evs where
      evs: "trace w1 = trace w @ evs" "\<forall>e \<in> set evs. is_report e"
      by (auto simp: acceptHeaders_def)
    have "?r = (Inl err, w1)"
      using acc Inl by (simp add: operator_call_def)
    moreover have "EvCheckBlockIndex \<notin> set evs"
      using evs(2) by auto
    ultimately show ?thesis
      by (simp add: new_events_def evs(1))
  next
    case (Inr pindexLast)
    show ?thesis
    proof (cases pindexLast)
      case None
      from acc Inr None have run: "acceptHeaders_loop env pfrom headers None w = (Inr None, w1)"
        by (simp add: acceptHeaders_def)
      note same = acceptHeaders_loop_Inr [OF run]
      have "fst ?r = Inr None" "new_events w (snd ?r) = [] @ [EvCheckBlockIndex]"
        using acc Inr None same
        by (simp_all add: operator_call_def new_events_def checkBlockIndex_def)
      then show ?thesis by auto
    next
      case (Some lastb)
      with acc Inr have acc': "acceptHeaders env pfrom headers w = (Inr (Some lastb), w1)"
        by simp
      from operator_call_accepted [OF acc', of peerSentMax maybeAnnouncement] obtain w4 pushed where
        w4: "trace w4 = trace w @ pushed"
            "pushed = (if peerSentMax
               then [EvPushMessage (nodeid pfrom) (GETHEADERS (GetLocator env (chainstate w1) (Some lastb)) 0)]
               else [])"
            "?r = (if \<not> maybeAnnouncement then (Inr (Some lastb), checkBlockIndex w4)
               else (case hasEqualOrMoreWork env (chainstate w1) lastb of
                Inl e \<Rightarrow> (Inl e, w4)
              | Inr False \<Rightarrow> (Inr (Some lastb), checkBlockIndex w4)
              | Inr True \<Rightarrow>
                  (Inr (Some lastb),
                   checkBlockIndex
                     (suggestDownload env pfrom (findMissingBlocks env w4 lastb) lastb
                        (w4\<lparr>trace := trace w4 @
                             [EvFindMissingBlocks lastb,
                              EvSuggestDownload (findMissingBlocks env w4 lastb) lastb]\<rparr>)))))"
        by auto
      have pushed: "EvCheckBlockIndex \<notin> set pushed"
        by (simp add: w4(2))
      let ?tf = "findMissingBlocks env w4 lastb"
      let ?w5 = "w4\<lparr>trace := trace w4 @ [EvFindMissingBlocks lastb, EvSuggestDownload ?tf lastb]\<rparr>"
      from suggestDownload_fetch [of env pfrom ?tf lastb ?w5] obtain evs where
        evs: "trace (suggestDownload env pfrom ?tf lastb ?w5) = trace ?w5 @ evs"
             "\<forall>e \<in> set evs. is_fetch e"
        by blast
      have fetch: "EvCheckBlockIndex \<notin> set evs"
        using evs(2) by auto
      have plain: "new_events w (checkBlockIndex w4) = pushed @ [EvCheckBlockIndex]"
        by (simp add: new_events_def checkBlockIndex_def w4(1))
      have "trace (checkBlockIndex (suggestDownload env pfrom ?tf lastb ?w5)) =
              (trace ?w5 @ evs) @ [EvCheckBlockIndex]"
        by (simp only: checkBlockIndex_def evs(1)) simp
      also have "trace ?w5 = (trace w @ pushed) @ [EvFindMissingBlocks lastb, EvSuggestDownload ?tf lastb]"
        by (simp add: w4(1))
      finally have fetched: "new_events w (checkBlockIndex (suggestDownload env pfrom ?tf lastb ?w5)) =
          (pushed @ [EvFindMissingBlocks lastb, EvSuggestDownload ?tf lastb] @ evs) @ [EvCheckBlockIndex]"
        by (simp add: new_events_def)
      have notin: "EvCheckBlockIndex \<notin>
          set (pushed @ [EvFindMissingBlocks lastb, EvSuggestDownload ?tf lastb] @ evs)"
        using pushed fetch by simp
      have null: "new_events w w4 = pushed"
        by (simp add: new_events_def w4(1))
      show ?thesis
      proof (cases maybeAnnouncement)
        case False
        with w4(3) have "?r = (Inr (Some lastb), checkBlockIndex w4)"
          by simp
        then show ?thesis
          using plain pushed by auto
      next
        case True
        show ?thesis
        proof (cases "hasEqualOrMoreWork env (chainstate w1) lastb")
          case (Inl e)
          with w4(3) True have "?r = (Inl e, w4)"
            by simp
          then show ?thesis
            using null pushed by auto
        next
          case (Inr g)
          show ?thesis
          proof (cases g)
            case True
            with w4(3) Inr \<open>maybeAnnouncement\<close> have
              "?r = (Inr (Some lastb), checkBlockIndex (suggestDownload env pfrom ?tf lastb ?w5))"
              by simp
            then show ?thesis
              using fetched notin by (metis fst_conv snd_conv sum.inject(2) sum.distinct(1))
          next
            case False
            with w4(3) Inr \<open>maybeAnnouncement\<close> have "?r = (Inr (Some lastb), checkBlockIndex w4)"
              by simp
            then show ?thesis
              using plain pushed by auto
          qed
        qed
      qed
    qed
  qed
qed


theorem operator_call_checkBlockIndex_witness:
  "fst (operator_call (ex_env 10 2) ex_peer [ex_header 0xB3 0xB2] False True ex_world) =
     Inr (Some 179) \<and>
   (\<exists>evs. new_events ex_world
            (snd (operator_call (ex_env 10 2) ex_peer [ex_header 0xB3 0xB2] False True ex_world)) =
            evs @ [EvCheckBlockIndex] \<and>
          EvCheckBlockIndex \<notin> set evs) \<and>
   fst (operator_call (ex_env 10 2) ex_peer [ex_header 0xC1 0xA0, ex_header 0xC9 0xB1] False True
          ex_world) = Inl (BlockHeaderError ''non-continuous headers sequence'') \<and>
   EvCheckBlockIndex \<notin>
     set (new_events ex_world
           (snd (operator_call (ex_env 10 2) ex_peer [ex_header 0xC1 0xA0, ex_header 0xC9 0xB1]
                   False True ex_world)))"
proof -
  have a: "fst (operator_call (ex_env 10 2) ex_peer [ex_header 0xB3 0xB2] False True ex_world) =
     Inr (Some 179)"
    by (simp add: operator_call_def acceptHeaders_def IsInvalid_def hasEqualOrMoreWork_def Tip_def
          UpdateBlockAvailability_def Let_def ex_defs)
  have b: "fst (operator_call (ex_env 10 2) ex_peer [ex_header 0xC1 0xA0, ex_header 0xC9 0xB1] False True
          ex_world) = Inl (BlockHeaderError ''non-continuous headers sequence'')"
    by (simp add: operator_call_def acceptHeaders_def IsInvalid_def GetBlockHash_def ex_defs)
  show ?thesis
    using a b
      operator_call_checkBlockIndex [of "ex_env 10 2" ex_peer "[ex_header 0xB3 0xB2]" False True ex_world]
      operator_call_checkBlockIndex [of "ex_env 10 2" ex_peer "[ex_header 0xC1 0xA0, ex_header 0xC9 0xB1]"
        False True ex_world]
    by blast
qed

section \<open>Properties of requestConnectHeaders\<close>

text \<open>The test \<^verbatim>\<open>unconnecting % MAX_UNCONNECTING_HEADERS == 0\<close> is divisibility by 10.\<close>

lemma smod_10_dvd: "(x :: int) smod 10 = 0 \<longleftrightarrow> 10 dvd x"
  by (auto simp: smod_int_alt_def mod_eq_0_iff_dvd sgn_if split: if_splits)

text \<open>What one call does for a header whose previous hash is not in \<^verbatim>\<open>mapBlockIndex\<close>.\<close>

lemma requestConnectHeaders_unconnecting:
  assumes "\<not> headerConnects (chainstate w) h"
  shows "fst (requestConnectHeaders env h from bumpUnconnecting w) = True"
    and "chainstate (snd (requestConnectHeaders env h from bumpUnconnecting w)) = chainstate w"
    and "unconnectingHeaders (nodeStates (snd (requestConnectHeaders env h from bumpUnconnecting w))
           (nodeid from)) =
         (if bumpUnconnecting then unconnectingHeaders (nodeStates w (nodeid from)) + 1
          else unconnectingHeaders (nodeStates w (nodeid from)))"
    and "trace (snd (requestConnectHeaders env h from bumpUnconnecting w)) =
         trace w @
          EvPushMessage (nodeid from)
            (GETHEADERS (GetLocator env (chainstate w) (pindexBestHeader (chainstate w))) 0) #
          (if bumpUnconnecting \<and> 10 dvd (unconnectingHeaders (nodeStates w (nodeid from)) + 1)
           then [EvMisbehaving (nodeid from) 20 ''unconnecting-headers''] else [])"
  using assms
  by (simp_all add: requestConnectHeaders_def UpdateBlockAvailability_def PushMessage_def
        Misbehaving_def MAX_UNCONNECTING_HEADERS_def Let_def smod_10_dvd)

text \<open>
  C1, as the spec words it, fails: the locator of the getheaders request is built from
  \<^verbatim>\<open>pindexBestHeader\<close>, the best header of this node, which is not a member of the peer's
  state. Here the node's best header is \<open>0xB3\<close> and peer 7's best known header is
  \<open>0xB1\<close> before the call and the unknown \<open>0xC1\<close> after it; the request sent carries
  the locator of \<open>0xB3\<close>, not the one of the peer's best known header (before or after).
\<close>

theorem requestConnectHeaders_locator_counterexample:
  "\<not> headerConnects (chainstate ex_world) (ex_header 0xC1 0xEE) \<and>
   fst (requestConnectHeaders (ex_env 10 2) (ex_header 0xC1 0xEE) ex_peer False ex_world) = True \<and>
   trace (snd (requestConnectHeaders (ex_env 10 2) (ex_header 0xC1 0xEE) ex_peer False ex_world)) =
     [EvPushMessage 7 (GETHEADERS [0xB3] 0)] \<and>
   pindexBestHeader (chainstate ex_world) = Some 179 \<and>
   GetBlockHash (blockIndex (chainstate ex_world) 179) = 0xB3 \<and>
   bestKnownHeader (nodeStates ex_world 7) = Some 0xB1 \<and>
   peerBestKnownLocator (ex_env 10 2) ex_world 7 = [0xB1] \<and>
   peerBestKnownLocator (ex_env 10 2)
     (snd (requestConnectHeaders (ex_env 10 2) (ex_header 0xC1 0xEE) ex_peer False ex_world)) 7 = []"
  by (simp add: requestConnectHeaders_def headerConnects_def UpdateBlockAvailability_def
        PushMessage_def peerBestKnownLocator_def GetBlockHash_def Let_def ex_defs)

text \<open>
  C1, amended. For every header whose previous hash is not in \<^verbatim>\<open>mapBlockIndex\<close> (and a
  counter below \<open>INT_MAX\<close> when it is to be incremented), \<^verbatim>\<open>requestConnectHeaders\<close> returns
  true and pushes exactly one message to the peer: a getheaders request with a null
  stop hash whose locator is \<^verbatim>\<open>chainActive.GetLocator(pindexBestHeader)\<close>, built from the
  node-wide best header, whatever the peer's state is.
\<close>

theorem requestConnectHeaders_sends_getheaders:
  assumes unknown: "\<not> headerConnects (chainstate w) h"
      and range: "bumpUnconnecting \<longrightarrow> unconnectingHeaders (nodeStates w (nodeid from)) < INT_MAX"
  shows "fst (requestConnectHeaders env h from bumpUnconnecting w) = True \<and>
         filter is_push (new_events w (snd (requestConnectHeaders env h from bumpUnconnecting w))) =
           [EvPushMessage (nodeid from)
              (GETHEADERS (GetLocator env (chainstate w) (pindexBestHeader (chainstate w))) 0)]"
  by (simp add: requestConnectHeaders_unconnecting [OF unknown] new_events_def)

theorem requestConnectHeaders_sends_getheaders_witness:
  "\<not> headerConnects (chainstate ex_world) (ex_header 0xC1 0xEE) \<and>
   unconnectingHeaders (nodeStates ex_world (nodeid ex_peer)) < INT_MAX \<and>
   fst (requestConnectHeaders (ex_env 10 2) (ex_header 0xC1 0xEE) ex_peer True ex_world) = True \<and>
   filter is_push (new_events ex_world
       (snd (requestConnectHeaders (ex_env 10 2) (ex_header 0xC1 0xEE) ex_peer True ex_world))) =
     [EvPushMessage 7 (GETHEADERS [0xB3] 0)]"
proof -
  have a: "\<not> headerConnects (chainstate ex_world) (ex_header 0xC1 0xEE)"
    by (simp add: headerConnects_def ex_defs)
  have b: "unconnectingHeaders (nodeStates ex_world (nodeid ex_peer)) < INT_MAX"
    by (simp add: INT_MAX_def ex_defs)
  then have b': "True \<longrightarrow> unconnectingHeaders (nodeStates ex_world (nodeid ex_peer)) < INT_MAX"
    by simp
  have c: "GetLocator (ex_env 10 2) (chainstate ex_world) (pindexBestHeader (chainstate ex_world)) =
           [0xB3]"
    by (simp add: GetBlockHash_def ex_defs)
  have d: "nodeid ex_peer = 7"
    by (simp add: ex_peer_def)
  show ?thesis
    using requestConnectHeaders_sends_getheaders [OF a b', of "ex_env 10 2"] a b
    by (simp only: c d) simp
qed


text \<open>Counting the multiples of 10 that a run of increments passes.\<close>

lemma div10_step:
  fixes c :: int
  shows "(c + 1) div 10 = c div 10 + (if 10 dvd (c + 1) then 1 else 0)"
proof -
  have bounds: "0 \<le> c mod 10" "c mod 10 < 10"
    by simp_all
  have split: "(c + 1) div 10 = c div 10 + (c mod 10 + 1) div 10"
    by (simp add: div_add1_eq [of c 1 10])
  have dvd: "10 dvd (c + 1) \<longleftrightarrow> c mod 10 = 9"
  proof
    assume "10 dvd (c + 1)"
    then have "(c mod 10 + 1) mod 10 = 0"
      by (simp add: mod_eq_0_iff_dvd mod_add_left_eq)
    then have "10 dvd (c mod 10 + 1)"
      by (simp add: mod_eq_0_iff_dvd)
    then obtain k where k: "c mod 10 + 1 = 10 * k" ..
    with bounds have "0 < k" "k < 2" by linarith+
    then have "k = 1" by linarith
    with k show "c mod 10 = 9" by linarith
  next
    assume "c mod 10 = 9"
    then have "(c mod 10 + 1) mod 10 = 0" by simp
    then show "10 dvd (c + 1)"
      by (simp add: mod_eq_0_iff_dvd [symmetric] mod_add_left_eq)
  qed
  show ?thesis
  proof (cases "c mod 10 = 9")
    case True
    then show ?thesis using split dvd by simp
  next
    case False
    with bounds have "c mod 10 + 1 < 10" by linarith
    then have "(c mod 10 + 1) div 10 = 0"
      using bounds by (intro div_pos_pos_trivial) linarith+
    then show ?thesis using split dvd False by simp
  qed
qed

lemma reports_between:
  fixes c n :: int
  assumes "0 \<le> n"
  shows "nat ((c + 1 + n) div 10 - (c + 1) div 10) + (if 10 dvd (c + 1) then 1 else 0) =
         nat ((c + 1 + n) div 10 - c div 10)"
proof -
  have mono: "(c + 1) div 10 \<le> (c + 1 + n) div 10"
    using assms by (intro zdiv_mono1) simp_all
  show ?thesis
  proof (cases "10 dvd (c + 1)")
    case True
    then have "(c + 1) div 10 = c div 10 + 1"
      by (simp add: div10_step [of c])
    with mono True show ?thesis by simp linarith
  next
    case False
    then have "(c + 1) div 10 = c div 10"
      by (simp add: div10_step [of c])
    with False show ?thesis by simp
  qed
qed

text \<open>
  A run of calls for headers that do not connect: the counter grows by the number of
  calls, and the reports made are as many as the multiples of 10 the counter passed.
\<close>

lemma requestConnectHeaders_run_reports:
  assumes "\<forall>h \<in> set hs. \<not> headerConnects (chainstate w) h"
  shows "\<exists>evs.
     trace (requestConnectHeaders_run env from hs w) = trace w @ evs \<and>
     chainstate (requestConnectHeaders_run env from hs w) = chainstate w \<and>
     unconnectingHeaders (nodeStates (requestConnectHeaders_run env from hs w) (nodeid from)) =
       unconnectingHeaders (nodeStates w (nodeid from)) + int (length hs) \<and>
     filter is_report evs =
       replicate
         (nat ((unconnectingHeaders (nodeStates w (nodeid from)) + int (length hs)) div 10 -
               unconnectingHeaders (nodeStates w (nodeid from)) div 10))
         (EvMisbehaving (nodeid from) 20 ''unconnecting-headers'')"
  using assms
proof (induction hs arbitrary: w)
  case Nil
  show ?case by simp
next
  case (Cons h hs)
  let ?c = "unconnectingHeaders (nodeStates w (nodeid from))"
  let ?R = "EvMisbehaving (nodeid from) 20 ''unconnecting-headers''"
  let ?w1 = "snd (requestConnectHeaders env h from True w)"
  from Cons.prems have h: "\<not> headerConnects (chainstate w) h"
    by simp
  note step = requestConnectHeaders_unconnecting [OF h, of env "from" True]
  have rest: "\<forall>h \<in> set hs. \<not> headerConnects (chainstate ?w1) h"
    using Cons.prems by (simp add: step(2))
  from Cons.IH [OF rest] obtain evs where
    ih: "trace (requestConnectHeaders_run env from hs ?w1) = trace ?w1 @ evs"
        "chainstate (requestConnectHeaders_run env from hs ?w1) = chainstate ?w1"
        "unconnectingHeaders (nodeStates (requestConnectHeaders_run env from hs ?w1) (nodeid from)) =
           unconnectingHeaders (nodeStates ?w1 (nodeid from)) + int (length hs)"
        "filter is_report evs =
           replicate
             (nat ((unconnectingHeaders (nodeStates ?w1 (nodeid from)) + int (length hs)) div 10 -
                   unconnectingHeaders (nodeStates ?w1 (nodeid from)) div 10)) ?R"
    by blast
  let ?first = "EvPushMessage (nodeid from)
            (GETHEADERS (GetLocator env (chainstate w) (pindexBestHeader (chainstate w))) 0) #
          (if 10 dvd (?c + 1) then [?R] else [])"
  have tr: "trace (requestConnectHeaders_run env from (h # hs) w) = trace w @ (?first @ evs)"
    using ih(1) step(4) by simp
  have cs: "chainstate (requestConnectHeaders_run env from (h # hs) w) = chainstate w"
    using ih(2) step(2) by simp
  have cnt: "unconnectingHeaders (nodeStates (requestConnectHeaders_run env from (h # hs) w) (nodeid from)) =
       ?c + int (length (h # hs))"
    using ih(3) step(3) by simp
  have "filter is_report (?first @ evs) =
          replicate (if 10 dvd (?c + 1) then 1 else 0) ?R @
          replicate (nat ((?c + 1 + int (length hs)) div 10 - (?c + 1) div 10)) ?R"
    using ih(4) step(3) by simp
  also have "\<dots> = replicate (nat ((?c + 1 + int (length hs)) div 10 - (?c + 1) div 10) +
                          (if 10 dvd (?c + 1) then 1 else 0)) ?R"
    by (simp add: replicate_add [symmetric] add.commute del: replicate_add)
  also have "\<dots> = replicate (nat ((?c + 1 + int (length hs)) div 10 - ?c div 10)) ?R"
    by (simp only: reports_between [of "int (length hs)" ?c, simplified])
  finally have rep: "filter is_report (?first @ evs) =
      replicate (nat ((?c + int (length (h # hs))) div 10 - ?c div 10)) ?R"
    by (simp add: add.commute add.left_commute)
  show ?case
    apply (rule exI [of _ "?first @ evs"])
    using tr cs cnt rep by blast
qed

text \<open>
  C9. A call with \<^verbatim>\<open>bumpUnconnecting\<close> true for a header that does not connect (counter
  below \<open>INT_MAX\<close>) increments the peer's counter by exactly 1, and makes a misbehaviour
  report, of 20 points, exactly when the new value of the counter is a multiple of 10.
  Ten such calls in a row for one peer, with nothing in between, make exactly one
  report, from whatever value the counter starts.
\<close>

theorem requestConnectHeaders_counter:
  "(\<not> headerConnects (chainstate w) h \<and> unconnectingHeaders (nodeStates w (nodeid from)) < INT_MAX \<longrightarrow>
      unconnectingHeaders (nodeStates (snd (requestConnectHeaders env h from True w)) (nodeid from)) =
        unconnectingHeaders (nodeStates w (nodeid from)) + 1 \<and>
      filter is_report (new_events w (snd (requestConnectHeaders env h from True w))) =
        (if 10 dvd
              unconnectingHeaders (nodeStates (snd (requestConnectHeaders env h from True w)) (nodeid from))
         then [EvMisbehaving (nodeid from) 20 ''unconnecting-headers''] else [])) \<and>
   ((\<forall>h \<in> set hs. \<not> headerConnects (chainstate w) h) \<and> length hs = 10 \<and>
    unconnectingHeaders (nodeStates w (nodeid from)) + 10 \<le> INT_MAX \<longrightarrow>
      unconnectingHeaders (nodeStates (requestConnectHeaders_run env from hs w) (nodeid from)) =
        unconnectingHeaders (nodeStates w (nodeid from)) + 10 \<and>
      filter is_report (new_events w (requestConnectHeaders_run env from hs w)) =
        [EvMisbehaving (nodeid from) 20 ''unconnecting-headers''])"
proof (intro conjI impI)
  assume a: "\<not> headerConnects (chainstate w) h \<and> unconnectingHeaders (nodeStates w (nodeid from)) < INT_MAX"
  then have h: "\<not> headerConnects (chainstate w) h" by simp
  note step = requestConnectHeaders_unconnecting [OF h, of env "from" True]
  show "unconnectingHeaders (nodeStates (snd (requestConnectHeaders env h from True w)) (nodeid from)) =
        unconnectingHeaders (nodeStates w (nodeid from)) + 1"
    using step(3) by simp
  show "filter is_report (new_events w (snd (requestConnectHeaders env h from True w))) =
        (if 10 dvd
              unconnectingHeaders (nodeStates (snd (requestConnectHeaders env h from True w)) (nodeid from))
         then [EvMisbehaving (nodeid from) 20 ''unconnecting-headers''] else [])"
    using step(3) step(4) by (simp add: new_events_def)
next
  assume b: "(\<forall>h \<in> set hs. \<not> headerConnects (chainstate w) h) \<and> length hs = 10 \<and>
    unconnectingHeaders (nodeStates w (nodeid from)) + 10 \<le> INT_MAX"
  then have all: "\<forall>h \<in> set hs. \<not> headerConnects (chainstate w) h" and len: "length hs = 10"
    by simp_all
  let ?c = "unconnectingHeaders (nodeStates w (nodeid from))"
  from requestConnectHeaders_run_reports [OF all, of env "from"] obtain evs where
    run: "trace (requestConnectHeaders_run env from hs w) = trace w @ evs"
         "unconnectingHeaders (nodeStates (requestConnectHeaders_run env from hs w) (nodeid from)) =
            ?c + int (length hs)"
         "filter is_report evs =
            replicate (nat ((?c + int (length hs)) div 10 - ?c div 10))
              (EvMisbehaving (nodeid from) 20 ''unconnecting-headers'')"
    by blast
  have one: "nat ((?c + 10) div 10 - ?c div 10) = 1"
    by simp
  show "unconnectingHeaders (nodeStates (requestConnectHeaders_run env from hs w) (nodeid from)) = ?c + 10"
    using run(2) len by simp
  show "filter is_report (new_events w (requestConnectHeaders_run env from hs w)) =
        [EvMisbehaving (nodeid from) 20 ''unconnecting-headers'']"
    using run(3) len one by (simp add: new_events_def run(1))
qed


theorem requestConnectHeaders_counter_witness:
  "unconnectingHeaders (nodeStates ex_world 7) = 0 \<and>
   unconnectingHeaders
     (nodeStates (snd (requestConnectHeaders (ex_env 10 2) (ex_header 0xC1 0xEE) ex_peer True ex_world)) 7) = 1 \<and>
   filter is_report
     (new_events ex_world
        (snd (requestConnectHeaders (ex_env 10 2) (ex_header 0xC1 0xEE) ex_peer True ex_world))) = [] \<and>
   unconnectingHeaders
     (nodeStates (requestConnectHeaders_run (ex_env 10 2) ex_peer
        (replicate 10 (ex_header 0xC1 0xEE)) ex_world) 7) = 10 \<and>
   filter is_report
     (new_events ex_world
        (requestConnectHeaders_run (ex_env 10 2) ex_peer (replicate 10 (ex_header 0xC1 0xEE)) ex_world)) =
     [EvMisbehaving 7 20 ''unconnecting-headers'']"
proof -
  have a: "\<not> headerConnects (chainstate ex_world) (ex_header 0xC1 0xEE)"
    by (simp add: headerConnects_def ex_defs)
  have c: "unconnectingHeaders (nodeStates ex_world (nodeid ex_peer)) = 0"
    by (simp add: ex_defs)
  have b: "unconnectingHeaders (nodeStates ex_world (nodeid ex_peer)) < INT_MAX"
    "unconnectingHeaders (nodeStates ex_world (nodeid ex_peer)) + 10 \<le> INT_MAX"
    by (simp_all add: c INT_MAX_def)
  have all: "\<forall>h \<in> set (replicate 10 (ex_header 0xC1 0xEE)). \<not> headerConnects (chainstate ex_world) h"
    using a by simp
  have len: "length (replicate 10 (ex_header 0xC1 0xEE)) = 10"
    by simp
  have d: "nodeid ex_peer = 7"
    by (simp add: ex_peer_def)
  have c7: "unconnectingHeaders (nodeStates ex_world 7) = 0"
    by (simp add: ex_defs)
  note inst = requestConnectHeaders_counter
    [of ex_world "ex_header 0xC1 0xEE" ex_peer "ex_env 10 2" "replicate 10 (ex_header 0xC1 0xEE)"]
  from inst a b(1) have
    "unconnectingHeaders (nodeStates (snd (requestConnectHeaders (ex_env 10 2) (ex_header 0xC1 0xEE)
        ex_peer True ex_world)) (nodeid ex_peer)) =
        unconnectingHeaders (nodeStates ex_world (nodeid ex_peer)) + 1"
    "filter is_report (new_events ex_world (snd (requestConnectHeaders (ex_env 10 2)
        (ex_header 0xC1 0xEE) ex_peer True ex_world))) =
        (if 10 dvd unconnectingHeaders (nodeStates (snd (requestConnectHeaders (ex_env 10 2)
              (ex_header 0xC1 0xEE) ex_peer True ex_world)) (nodeid ex_peer))
         then [EvMisbehaving (nodeid ex_peer) 20 ''unconnecting-headers''] else [])"
    by blast+
  then have one:
    "unconnectingHeaders (nodeStates (snd (requestConnectHeaders (ex_env 10 2) (ex_header 0xC1 0xEE)
        ex_peer True ex_world)) 7) = 1"
    "filter is_report (new_events ex_world (snd (requestConnectHeaders (ex_env 10 2)
        (ex_header 0xC1 0xEE) ex_peer True ex_world))) = []"
    by (simp_all add: d c7)
  from inst all len b(2) have
    "unconnectingHeaders (nodeStates (requestConnectHeaders_run (ex_env 10 2) ex_peer
        (replicate 10 (ex_header 0xC1 0xEE)) ex_world) (nodeid ex_peer)) =
        unconnectingHeaders (nodeStates ex_world (nodeid ex_peer)) + 10"
    "filter is_report (new_events ex_world (requestConnectHeaders_run (ex_env 10 2) ex_peer
        (replicate 10 (ex_header 0xC1 0xEE)) ex_world)) =
        [EvMisbehaving (nodeid ex_peer) 20 ''unconnecting-headers'']"
    by blast+
  then have ten:
    "unconnectingHeaders (nodeStates (requestConnectHeaders_run (ex_env 10 2) ex_peer
        (replicate 10 (ex_header 0xC1 0xEE)) ex_world) 7) = 10"
    "filter is_report (new_events ex_world (requestConnectHeaders_run (ex_env 10 2) ex_peer
        (replicate 10 (ex_header 0xC1 0xEE)) ex_world)) =
        [EvMisbehaving 7 20 ''unconnecting-headers'']"
    by (simp_all add: d c7)
  from c7 one ten show ?thesis
    by blast
qed

section \<open>The end-to-end scenario of the spec\<close>

text \<open>
  The active tip is \<open>0xA0\<close> at height 100; the peer announces three headers \<open>0xC1\<close>,
  \<open>0xC2\<close>, \<open>0xC3\<close>, each on top of the one before, with no data and nothing in flight,
  and a transit cap of 10. All three are accepted, the peer's known block becomes
  \<open>0xC3\<close>, the walk returns the three blocks newest first, the admission sees them
  oldest first, one getdata message asks for \<open>0xC1\<close>, \<open>0xC2\<close>, \<open>0xC3\<close> in this order, all
  three are marked in flight, and the invariant check ends the call.
\<close>

theorem end_to_end_scenario:
  "fst (operator_call (ex_env 10 5) ex_peer
          [ex_header 0xC1 0xA0, ex_header 0xC2 0xC1, ex_header 0xC3 0xC2] False True ex_world) =
     Inr (Some 195) \<and>
   trace (snd (operator_call (ex_env 10 5) ex_peer
          [ex_header 0xC1 0xA0, ex_header 0xC2 0xC1, ex_header 0xC3 0xC2] False True ex_world)) =
     [EvFindMissingBlocks 195, EvSuggestDownload [195, 194, 193] 195,
      EvOnBlockAnnounced 0xC1 True, EvMarkAsInFlight 7 0xC1,
      EvOnBlockAnnounced 0xC2 True, EvMarkAsInFlight 7 0xC2,
      EvOnBlockAnnounced 0xC3 True, EvMarkAsInFlight 7 0xC3,
      EvPushMessage 7 (GETDATA [CInv 2 0xC1, CInv 2 0xC2, CInv 2 0xC3]),
      EvCheckBlockIndex] \<and>
   bestKnownHeader (nodeStates (snd (operator_call (ex_env 10 5) ex_peer
          [ex_header 0xC1 0xA0, ex_header 0xC2 0xC1, ex_header 0xC3 0xC2] False True ex_world)) 7) =
     Some 0xC3 \<and>
   netstate (snd (operator_call (ex_env 10 5) ex_peer
          [ex_header 0xC1 0xA0, ex_header 0xC2 0xC1, ex_header 0xC3 0xC2] False True ex_world)) =
     [0xC1, 0xC2, 0xC3]"
  by (simp add: operator_call_def acceptHeaders_def IsInvalid_def hasEqualOrMoreWork_def Tip_def
        UpdateBlockAvailability_def PushMessage_def checkBlockIndex_def suggestDownload_def
        findMissingBlocks_def findMissingBlocks_loop.simps visit_def push_trim_def Contains_def
        WALK_LIMIT_def GetBlockHash_def Let_def ex_defs)

end
